(* ===== verification/Prelude.thy ===== *)
theory Prelude
  imports Main
begin

text \<open>
  Shared vocabulary of the development: the named theorem collections the component
  theories fill, a bind for the error-or-value results of JavaScript evaluation, and
  the list and string helpers (removal by index, decimal digits) used by several
  components.
\<close>

named_theorems js_simps
  "evaluation equations of the JavaScript value helpers"
named_theorems upd_simps
  "equations describing the effect of batched state updates"

section \<open>Error-or-value results\<close>

text \<open>
  JavaScript evaluation either throws (\<open>Inl\<close>) or yields a value (\<open>Inr\<close>); a
  sequence of evaluations stops at the first exception.
\<close>

fun sum_bind :: "'e + 'a \<Rightarrow> ('a \<Rightarrow> 'e + 'b) \<Rightarrow> 'e + 'b" where
  "sum_bind (Inl e) f = Inl e"
| "sum_bind (Inr a) f = f a"

lemma sum_bind_eq_Inr [simp]:
  "sum_bind m f = Inr b \<longleftrightarrow> (\<exists>a. m = Inr a \<and> f a = Inr b)"
  by (cases m) auto

lemma sum_bind_case: "sum_bind m f = (case m of Inl e \<Rightarrow> Inl e | Inr a \<Rightarrow> f a)"
  by (cases m) auto

lemma isl_sum_bind:
  "isl (sum_bind m f) \<longleftrightarrow> isl m \<or> (\<exists>a. m = Inr a \<and> isl (f a))"
  by (cases m) auto

lemma not_isl_iff: "\<not> isl m \<longleftrightarrow> (\<exists>a. m = Inr a)"
  by (cases m) auto

lemma sum_bind_eq_Inl:
  "sum_bind m f = Inl e \<longleftrightarrow> m = Inl e \<or> (\<exists>a. m = Inr a \<and> f a = Inl e)"
  by (cases m) auto

section \<open>Lists\<close>

text \<open>Removing the element at an index, as a list of pending requests does when one settles.\<close>

definition remove_nth :: "nat \<Rightarrow> 'a list \<Rightarrow> 'a list" where
  "remove_nth i xs = take i xs @ drop (Suc i) xs"

lemma remove_nth_Cons_0 [simp]: "remove_nth 0 (x # xs) = xs"
  by (simp add: remove_nth_def)

lemma remove_nth_Cons_Suc [simp]: "remove_nth (Suc i) (x # xs) = x # remove_nth i xs"
  by (simp add: remove_nth_def)

lemma length_remove_nth [simp]:
  "i < length xs \<Longrightarrow> length (remove_nth i xs) = length xs - 1"
  by (simp add: remove_nth_def)

lemma set_remove_nth_subset: "set (remove_nth i xs) \<subseteq> set xs"
  by (auto simp: remove_nth_def dest: in_set_takeD in_set_dropD)

lemma all_set_dropWhile_iff [simp]:
  "(\<forall>x \<in> set (dropWhile P xs). P x) \<longleftrightarrow> (\<forall>x \<in> set xs. P x)"
  by (induction xs) auto

section \<open>Decimal digits\<close>

definition is_digit :: "char \<Rightarrow> bool" where
  "is_digit c \<longleftrightarrow> 48 \<le> (of_char c :: nat) \<and> (of_char c :: nat) \<le> 57"

definition digit_value :: "char \<Rightarrow> nat" where
  "digit_value c = of_char c - 48"

definition digit_char :: "nat \<Rightarrow> char" where
  "digit_char d = char_of (48 + d)"

definition dec_value :: "string \<Rightarrow> nat" where
  "dec_value ds = foldl (\<lambda>n c. 10 * n + digit_value c) 0 ds"

fun nat_to_dec :: "nat \<Rightarrow> string" where
  "nat_to_dec n = (if n < 10 then [digit_char n] else nat_to_dec (n div 10) @ [digit_char (n mod 10)])"

declare nat_to_dec.simps [simp del]

lemma digit_value_digit_char [simp]: "d < 10 \<Longrightarrow> digit_value (digit_char d) = d"
  by (simp add: digit_value_def digit_char_def)

lemma is_digit_digit_char [simp]: "d < 10 \<Longrightarrow> is_digit (digit_char d)"
  by (simp add: is_digit_def digit_char_def)

lemma dec_value_snoc [simp]: "dec_value (ds @ [c]) = 10 * dec_value ds + digit_value c"
  by (simp add: dec_value_def)

lemma nat_to_dec_nonempty [simp]: "nat_to_dec n \<noteq> []"
  by (subst nat_to_dec.simps) simp

lemma nat_to_dec_digits: "\<forall>c \<in> set (nat_to_dec n). is_digit c"
proof (induction n rule: nat_to_dec.induct)
  case (1 n)
  then show ?case by (subst nat_to_dec.simps) auto
qed

lemma dec_value_nat_to_dec [simp]: "dec_value (nat_to_dec n) = n"
proof (induction n rule: nat_to_dec.induct)
  case (1 n)
  show ?case
  proof (cases "n < 10")
    case True
    then show ?thesis by (subst nat_to_dec.simps) (simp add: dec_value_def)
  next
    case False
    with "1.IH" show ?thesis by (subst nat_to_dec.simps) simp
  qed
qed

lemma of_char_char_of_small [simp]: "n < 256 \<Longrightarrow> (of_char (char_of n :: char) :: nat) = n"
  by (simp add: of_char_of)

lemma nat_to_dec_lead: "nat_to_dec m = CHR ''0'' # t \<Longrightarrow> m = 0 \<and> t = []"
proof (induction m arbitrary: t rule: nat_to_dec.induct)
  case (1 m)
  show ?case
  proof (cases "m < 10")
    case True
    with "1.prems" have "digit_char m = CHR ''0''" "t = []" by (simp_all add: nat_to_dec.simps [of m])
    with True show ?thesis by (auto simp: digit_char_def dest: arg_cong [where f = "of_char :: char \<Rightarrow> nat"])
  next
    case False
    with "1.prems" obtain t' where "nat_to_dec (m div 10) = CHR ''0'' # t'"
      by (cases "nat_to_dec (m div 10)") (auto simp: nat_to_dec.simps [of m])
    with "1.IH" False have "m div 10 = 0" by blast
    with False show ?thesis by simp
  qed
qed

end
