(* ===== verification/JS_Values.thy ===== *)
theory JS_Values
  imports Prelude
begin

text \<open>
  The JavaScript values the program handles and the language operations it applies to
  them. Every value the client reads comes from a JSON response body, so a value is a
  JSON value or \<open>undefined\<close> (the result of reading a missing property). JSON numbers
  are modelled as integers: the program never computes with them, it only compares a
  \<open>length\<close> with 0. Strings are lists of 8-bit code units (the Latin-1 range of a JS
  string). Exceptions the program can observe are a \<open>TypeError\<close> (reading a
  property of \<open>null\<close>/\<open>undefined\<close>, calling a non-function), the rejection of an
  axios call, and the error React DOM raises on a rendered tree it cannot commit
  (\<open>ReactError\<close>: an object as a child, an attribute that does not convert).
  These definitions model the ECMAScript semantics the code relies on, not code of the
  repository.
\<close>

datatype jsval =
    JUndef
  | JNull
  | JBool bool
  | JNum int
  | JStr string
  | JArr "jsval list"
  | JObj "(string \<times> jsval) list"

datatype http_failure = NetworkError | BadStatus nat

datatype js_exc = TypeError | AxiosError http_failure | ReactError

type_synonym 'a js = "js_exc + 'a"

section \<open>Property access\<close>

text \<open>
  A canonical array index is a decimal numeral without leading zeros. Objects decoded
  from JSON keep their keys in order; a repeated key keeps its last value, which
  \<open>map_of (rev kvs)\<close> finds. The property names the program reads (\<open>contexts\<close>,
  \<open>length\<close>, \<open>source_title\<close>, \<open>text_snippet\<close>, \<open>source_url\<close>) are not members of
  \<open>Object.prototype\<close>, \<open>Number.prototype\<close> or \<open>Boolean.prototype\<close>, so on
  such a value they read as \<open>undefined\<close>.
\<close>

definition array_index :: "string \<Rightarrow> nat option" where
  "array_index k =
     (if k \<noteq> [] \<and> (\<forall>c \<in> set k. is_digit c) \<and> (hd k = CHR ''0'' \<longrightarrow> k = ''0'')
      then Some (dec_value k) else None)"

fun get_prop :: "jsval \<Rightarrow> string \<Rightarrow> jsval js" where
  "get_prop JUndef k = Inl TypeError"
| "get_prop JNull k = Inl TypeError"
| "get_prop (JBool b) k = Inr JUndef"
| "get_prop (JNum n) k = Inr JUndef"
| "get_prop (JStr s) k =
     Inr (if k = ''length'' then JNum (int (length s))
          else case array_index k of
            Some i \<Rightarrow> if i < length s then JStr [s ! i] else JUndef
          | None \<Rightarrow> JUndef)"
| "get_prop (JArr xs) k =
     Inr (if k = ''length'' then JNum (int (length xs))
          else case array_index k of
            Some i \<Rightarrow> if i < length xs then xs ! i else JUndef
          | None \<Rightarrow> JUndef)"
| "get_prop (JObj kvs) k = Inr (case map_of (rev kvs) k of Some v \<Rightarrow> v | None \<Rightarrow> JUndef)"

text \<open>
  \<open>v.map(f)\<close>: only an array has a callable \<open>map\<close>; on strings, numbers and booleans
  the member is absent, and on a JSON object it is absent or a data value, so the call
  throws a \<open>TypeError\<close>, as reading it from \<open>null\<close>/\<open>undefined\<close> does.
\<close>

fun array_elems :: "jsval \<Rightarrow> jsval list js" where
  "array_elems (JArr xs) = Inr xs"
| "array_elems _ = Inl TypeError"

section \<open>Truthiness and strings\<close>

fun js_truthy :: "jsval \<Rightarrow> bool" where
  "js_truthy JUndef = False"
| "js_truthy JNull = False"
| "js_truthy (JBool b) = b"
| "js_truthy (JNum n) = (n \<noteq> 0)"
| "js_truthy (JStr s) = (s \<noteq> [])"
| "js_truthy (JArr xs) = True"
| "js_truthy (JObj kvs) = True"

text \<open>
  \<open>String.prototype.trim\<close> removes WhiteSpace and LineTerminator code units: in the
  8-bit range these are TAB, LF, VT, FF, CR, SPACE and NO-BREAK SPACE (0xA0).
\<close>

definition js_ws :: "char \<Rightarrow> bool" where
  "js_ws c \<longleftrightarrow> (of_char c :: nat) \<in> {9, 10, 11, 12, 13, 32, 160}"

definition js_trim :: "string \<Rightarrow> string" where
  "js_trim s = rev (dropWhile js_ws (rev (dropWhile js_ws s)))"

definition int_to_dec :: "int \<Rightarrow> string" where
  "int_to_dec n = (if n < 0 then CHR ''-'' # nat_to_dec (nat (- n)) else nat_to_dec (nat n))"

fun join_with :: "string \<Rightarrow> string list \<Rightarrow> string" where
  "join_with sep [] = []"
| "join_with sep [s] = s"
| "join_with sep (s # ss) = s @ sep @ join_with sep ss"

text \<open>
  \<open>ToPrimitive\<close> on a value decoded from JSON. An object's own properties are data
  (JSON has no functions), so an own \<open>toString\<close> or \<open>valueOf\<close> is a non-callable
  member that \<open>OrdinaryToPrimitive\<close> skips, while the inherited
  \<open>Object.prototype.valueOf\<close> returns the object itself, which is not primitive.
  The only primitive an object can yield is therefore the inherited
  \<open>Object.prototype.toString\<close>, \<open>"[object Object]"\<close>, and when an own
  \<open>toString\<close> hides it no method yields a primitive and a \<open>TypeError\<close> is thrown,
  under either hint. An array inherits the same \<open>valueOf\<close> and yields
  \<open>Array.prototype.join(",")\<close>, which converts its elements in order (\<open>null\<close>
  and \<open>undefined\<close> as empty) and propagates the first throw.
\<close>

definition has_own :: "(string \<times> jsval) list \<Rightarrow> string \<Rightarrow> bool" where
  "has_own kvs k \<longleftrightarrow> k \<in> set (map fst kvs)"

text \<open>\<open>String(v)\<close> (ToString, through ToPrimitive with hint string for arrays and objects).\<close>

fun js_to_string :: "jsval \<Rightarrow> string js"
  and join_elems :: "jsval list \<Rightarrow> string list js" where
  "js_to_string JUndef = Inr ''undefined''"
| "js_to_string JNull = Inr ''null''"
| "js_to_string (JBool b) = Inr (if b then ''true'' else ''false'')"
| "js_to_string (JNum n) = Inr (int_to_dec n)"
| "js_to_string (JStr s) = Inr s"
| "js_to_string (JArr xs) = sum_bind (join_elems xs) (\<lambda>ss. Inr (join_with '','' ss))"
| "js_to_string (JObj kvs) = (if has_own kvs ''toString'' then Inl TypeError else Inr ''[object Object]'')"
| "join_elems [] = Inr []"
| "join_elems (v # vs) =
     sum_bind (if v = JUndef \<or> v = JNull then Inr [] else js_to_string v) (\<lambda>t.
     sum_bind (join_elems vs) (\<lambda>ts. Inr (t # ts)))"

text \<open>
  Where ToPrimitive throws: an object with an own \<open>toString\<close>, or an array some
  element of which (at any depth of nested arrays) is one.
\<close>

fun to_primitive_throws :: "jsval \<Rightarrow> bool" where
  "to_primitive_throws (JObj kvs) = has_own kvs ''toString''"
| "to_primitive_throws (JArr xs) = (\<exists>x \<in> set xs. to_primitive_throws x)"
| "to_primitive_throws _ = False"

section \<open>Lemmas\<close>

text \<open>The property names the program reads are not array indices.\<close>

lemma array_index_program_names [simp, js_simps]:
  "array_index ''contexts'' = None" "array_index ''source_title'' = None"
  "array_index ''text_snippet'' = None" "array_index ''source_url'' = None"
  by (simp_all add: array_index_def is_digit_def)

lemma get_prop_Inl_iff: "get_prop v k = Inl e \<longleftrightarrow> (v = JUndef \<or> v = JNull) \<and> e = TypeError"
  by (cases v) auto

lemma get_prop_length_JArr [js_simps]: "get_prop (JArr xs) ''length'' = Inr (JNum (int (length xs)))"
  by simp

lemma js_trim_empty_iff: "js_trim s = [] \<longleftrightarrow> (\<forall>c \<in> set s. js_ws c)"
proof -
  have "rev (dropWhile js_ws (rev ys)) = [] \<longleftrightarrow> (\<forall>c \<in> set ys. js_ws c)" for ys
    by (simp add: dropWhile_eq_Nil_conv)
  then show ?thesis
    by (simp add: js_trim_def dropWhile_eq_Nil_conv)
qed

text \<open>\<open>String(v)\<close> throws exactly where ToPrimitive does.\<close>

lemma js_to_string_Inl_iff: "isl (js_to_string v) \<longleftrightarrow> to_primitive_throws v"
  and join_elems_Inl_iff: "isl (join_elems xs) \<longleftrightarrow> (\<exists>x \<in> set xs. to_primitive_throws x)"
  by (induction v and xs rule: js_to_string_join_elems.induct) (auto simp: isl_sum_bind not_isl_iff)

end
