(* ===== verification/App_State.thy ===== *)
theory App_State
  imports JS_Values
begin

text \<open>
  The state of the \<open>App\<close> component (src/rag-frontend/src/App.js, lines 7--10): four
  \<open>useState\<close> hooks. A state setter does not change the state at once: React queues
  the update and applies the queue, in order, before the next render (React 18
  automatic batching, also after an \<open>await\<close>). An update is therefore a value of
  \<open>upd\<close> and a batch is applied by \<open>apply_upds\<close>.
\<close>

record app_state =
  query :: string
  results :: jsval
  loading :: bool
  error :: "string option"

definition init_state :: app_state where
  "init_state = \<lparr>query = [], results = JArr [], loading = False, error = None\<rparr>"

datatype upd =
    SetQuery string
  | SetResults jsval
  | SetLoading bool
  | SetError "string option"

fun apply_upd :: "app_state \<Rightarrow> upd \<Rightarrow> app_state" where
  "apply_upd s (SetQuery q) = s\<lparr>query := q\<rparr>"
| "apply_upd s (SetResults v) = s\<lparr>results := v\<rparr>"
| "apply_upd s (SetLoading b) = s\<lparr>loading := b\<rparr>"
| "apply_upd s (SetError e) = s\<lparr>error := e\<rparr>"

definition apply_upds :: "upd list \<Rightarrow> app_state \<Rightarrow> app_state" where
  "apply_upds us s = foldl apply_upd s us"

lemma apply_upds_Nil [simp, upd_simps]: "apply_upds [] s = s"
  by (simp add: apply_upds_def)

lemma apply_upds_Cons [simp, upd_simps]: "apply_upds (u # us) s = apply_upds us (apply_upd s u)"
  by (simp add: apply_upds_def)

lemma apply_upds_append [upd_simps]: "apply_upds (us @ vs) s = apply_upds vs (apply_upds us s)"
  by (simp add: apply_upds_def)

text \<open>A field no update of the batch writes keeps its value.\<close>

lemma query_apply_upds [upd_simps]:
  "\<forall>u \<in> set us. \<not> (\<exists>q. u = SetQuery q) \<Longrightarrow> query (apply_upds us s) = query s"
proof (induction us arbitrary: s)
  case Nil
  then show ?case by simp
next
  case (Cons u us)
  then show ?case by (cases u) auto
qed

end
