(* ===== verification/Handle_Submit.thy ===== *)
theory Handle_Submit
  imports App_State
begin

text \<open>
  The submit handler \<open>handleSubmit\<close> (App.js, lines 12--36) and the one external
  collaborator it calls, \<open>axios.post\<close> against the search backend. The handler is an
  \<open>async\<close> function with one suspension point, the \<open>await\<close> of line 23; it runs in
  two parts, each ending with the batch of state updates it queued:
  \<^item> \<open>handleSubmit\<close>: lines 13--27 up to the \<open>await\<close>; either the function has
    returned (blank query, line 19) or it waits for the request it issued;
  \<^item> \<open>handleSubmit_resume\<close>: lines 28--35 after the promise settles, the \<open>try\<close>,
    \<open>catch\<close> and \<open>finally\<close> blocks, with the exceptions passed to \<open>console.error\<close>.
  The backend's reply is a value of \<open>http_reply\<close>; \<open>axios_post\<close> is how axios turns it
  into a fulfilled response or a rejection (library behaviour, not repository code).
\<close>

section \<open>The request and the backend's reply\<close>

record request =
  req_method :: string
  req_url :: string
  req_body :: jsval

definition ask_url :: string where
  "ask_url = ''http://127.0.0.1:8000/ask''"

definition ask_request :: "string \<Rightarrow> request" where
  "ask_request q =
     \<lparr>req_method = ''POST'', req_url = ask_url,
      req_body = JObj [(''q'', JStr q), (''k'', JNum 5), (''mode'', JStr ''hybrid'')]\<rparr>"

text \<open>
  A reply body either parses as JSON or is other text; axios's default
  \<open>transitional.silentJSONParsing\<close> hands unparsable text to the caller as the raw
  string. A status outside 200--299 and a failed connection reject the promise.
\<close>

datatype http_body = JsonBody jsval | TextBody string

datatype http_reply = NoReply | Reply nat http_body

datatype axios_result = Fulfilled jsval | Rejected http_failure

fun axios_post :: "http_reply \<Rightarrow> axios_result" where
  "axios_post NoReply = Rejected NetworkError"
| "axios_post (Reply st b) =
     (if 200 \<le> st \<and> st < 300
      then Fulfilled (case b of JsonBody v \<Rightarrow> v | TextBody t \<Rightarrow> JStr t)
      else Rejected (BadStatus st))"

section \<open>The handler\<close>

definition fetch_error_msg :: string where
  "fetch_error_msg =
     ''An error occurred while fetching data. Please check if the backend is running.''"

datatype submit_outcome =
    Returned "upd list"
  | Awaiting "upd list" request

text \<open>
  Lines 14--16 queue three updates; \<open>!query.trim()\<close> (line 17) is true exactly when the
  trimmed query is the empty string, the only falsy string.
\<close>

definition handleSubmit :: "app_state \<Rightarrow> submit_outcome" where
  "handleSubmit s =
     (let pre = [SetLoading True, SetError None, SetResults (JArr [])] in
      if \<not> js_truthy (JStr (js_trim (query s)))
      then Returned (pre @ [SetLoading False])
      else Awaiting pre (ask_request (query s)))"

text \<open>
  After the \<open>await\<close>: line 29 reads \<open>response.data.contexts\<close>, which throws when
  \<open>data\<close> is \<open>null\<close>; the \<open>catch\<close> block sets the fixed message and logs the
  exception; the \<open>finally\<close> block clears \<open>loading\<close>.
\<close>

fun handleSubmit_resume :: "axios_result \<Rightarrow> upd list \<times> js_exc list" where
  "handleSubmit_resume (Fulfilled data) =
     (case get_prop data ''contexts'' of
        Inr ctx \<Rightarrow> ([SetResults ctx] @ [SetLoading False], [])
      | Inl exc \<Rightarrow> ([SetError (Some fetch_error_msg)] @ [SetLoading False], [exc]))"
| "handleSubmit_resume (Rejected f) =
     ([SetError (Some fetch_error_msg)] @ [SetLoading False], [AxiosError f])"

section \<open>Properties of the handler\<close>

lemma handleSubmit_blank_iff: "\<not> js_truthy (JStr (js_trim q)) \<longleftrightarrow> (\<forall>c \<in> set q. js_ws c)"
  by (simp add: js_trim_empty_iff)

lemma handleSubmit_Returned_state:
  "handleSubmit s = Returned us \<Longrightarrow>
     apply_upds us s = s\<lparr>results := JArr [], loading := False, error := None\<rparr> \<and>
     (\<forall>c \<in> set (query s). js_ws c)"
  by (auto simp: handleSubmit_def Let_def js_trim_empty_iff split: if_splits)

lemma handleSubmit_Awaiting_state:
  "handleSubmit s = Awaiting us r \<Longrightarrow>
     apply_upds us s = s\<lparr>results := JArr [], loading := True, error := None\<rparr> \<and>
     r = ask_request (query s) \<and> \<not> (\<forall>c \<in> set (query s). js_ws c)"
  by (auto simp: handleSubmit_def Let_def js_trim_empty_iff split: if_splits)

lemma handleSubmit_resume_state:
  "handleSubmit_resume a = (us, logged) \<Longrightarrow>
     apply_upds us s =
       (case a of
          Fulfilled d \<Rightarrow>
            (case get_prop d ''contexts'' of
               Inr c \<Rightarrow> s\<lparr>results := c, loading := False\<rparr>
             | Inl e \<Rightarrow> s\<lparr>error := Some fetch_error_msg, loading := False\<rparr>)
        | Rejected f \<Rightarrow> s\<lparr>error := Some fetch_error_msg, loading := False\<rparr>)"
  by (cases a) (auto split: sum.splits)

lemma fetch_error_msg_nonempty [simp]: "fetch_error_msg \<noteq> []"
  by (simp add: fetch_error_msg_def)

text \<open>
  C1. Submitting a query made only of whitespace issues no request: the handler
  returns before the \<open>await\<close>, and its batch leaves \<open>loading\<close> false, clears the
  error and the results, and keeps the query.
\<close>

theorem handleSubmit_blank:
  assumes "\<forall>c \<in> set (query s). js_ws c"
  shows "case handleSubmit s of
           Returned us \<Rightarrow> apply_upds us s = s\<lparr>results := JArr [], loading := False, error := None\<rparr>
         | Awaiting us r \<Rightarrow> False"
  using assms by (simp add: handleSubmit_def js_trim_empty_iff)

theorem handleSubmit_blank_witness:
  "js_trim '' \<newline>'' = [] \<and>
   (case handleSubmit (init_state\<lparr>query := '' \<newline>'', error := Some ''e''\<rparr>) of
      Returned us \<Rightarrow> apply_upds us (init_state\<lparr>query := '' \<newline>'', error := Some ''e''\<rparr>)
        = (init_state\<lparr>query := '' \<newline>'', error := Some ''e''\<rparr>)\<lparr>results := JArr [], loading := False, error := None\<rparr>
    | Awaiting us r \<Rightarrow> False)"
proof -
  have h: "\<forall>c \<in> set (query (init_state\<lparr>query := '' \<newline>'', error := Some ''e''\<rparr>)). js_ws c"
    by (simp add: js_ws_def)
  show ?thesis using handleSubmit_blank [OF h] by (simp add: js_trim_def js_ws_def)
qed

text \<open>
  C2. Submitting a query with a non-whitespace character issues exactly one request,
  a POST to the backend's \<open>/ask\<close> with body \<open>{q: query, k: 5, mode: "hybrid"}\<close>, and
  before the request settles the state shows loading, no error and no results, with
  the query kept in the field.
\<close>

theorem handleSubmit_nonblank:
  assumes "\<exists>c \<in> set (query s). \<not> js_ws c"
  shows "case handleSubmit s of
           Awaiting us r \<Rightarrow>
             apply_upds us s = s\<lparr>results := JArr [], loading := True, error := None\<rparr> \<and>
             req_method r = ''POST'' \<and> req_url r = ''http://127.0.0.1:8000/ask'' \<and>
             req_body r = JObj [(''q'', JStr (query s)), (''k'', JNum 5), (''mode'', JStr ''hybrid'')]
         | Returned us \<Rightarrow> False"
proof -
  from assms have "js_truthy (JStr (js_trim (query s)))"
    using handleSubmit_blank_iff by blast
  then show ?thesis by (simp add: handleSubmit_def ask_request_def ask_url_def)
qed

theorem handleSubmit_nonblank_witness:
  "js_trim ''fire extinguisher'' = ''fire extinguisher'' \<and>
   (case handleSubmit (init_state\<lparr>query := ''fire extinguisher''\<rparr>) of
      Awaiting us r \<Rightarrow>
        apply_upds us (init_state\<lparr>query := ''fire extinguisher''\<rparr>)
          = (init_state\<lparr>query := ''fire extinguisher''\<rparr>)\<lparr>results := JArr [], loading := True, error := None\<rparr> \<and>
        req_method r = ''POST'' \<and> req_url r = ''http://127.0.0.1:8000/ask'' \<and>
        req_body r = JObj [(''q'', JStr ''fire extinguisher''), (''k'', JNum 5), (''mode'', JStr ''hybrid'')]
    | Returned us \<Rightarrow> False)"
proof -
  have h: "\<exists>c \<in> set (query (init_state\<lparr>query := ''fire extinguisher''\<rparr>)). \<not> js_ws c"
    by (simp add: js_ws_def)
  show ?thesis using handleSubmit_nonblank [OF h] by (simp add: js_trim_def js_ws_def split: submit_outcome.splits)
qed

text \<open>
  C3. When the request is fulfilled with a body whose \<open>contexts\<close> property reads as
  \<open>ctx\<close>, the resumed handler stores \<open>ctx\<close> verbatim as the results, then clears
  \<open>loading\<close>; it leaves the error and the query alone and logs nothing.
\<close>

theorem handleSubmit_resume_fulfilled:
  assumes "get_prop data ''contexts'' = Inr ctx"
  shows "handleSubmit_resume (Fulfilled data) = (us, logged) \<Longrightarrow>
         apply_upds us s = s\<lparr>results := ctx, loading := False\<rparr> \<and> logged = []"
  using assms by auto

theorem handleSubmit_resume_fulfilled_witness:
  "get_prop (JObj [(''contexts'', JArr [])]) ''contexts'' = Inr (JArr []) \<and>
   apply_upds (fst (handleSubmit_resume (Fulfilled (JObj [(''contexts'', JArr [])])))) init_state
     = init_state\<lparr>results := JArr [], loading := False\<rparr> \<and>
   snd (handleSubmit_resume (Fulfilled (JObj [(''contexts'', JArr [])]))) = []"
proof -
  have h: "get_prop (JObj [(''contexts'', JArr [])]) ''contexts'' = Inr (JArr [])" by simp
  show ?thesis
    using handleSubmit_resume_fulfilled [OF h, of "fst (handleSubmit_resume (Fulfilled (JObj [(''contexts'', JArr [])])))"
        "snd (handleSubmit_resume (Fulfilled (JObj [(''contexts'', JArr [])])))" init_state] h
    by simp
qed

text \<open>
  C4. When the request is rejected (network failure, a status outside 200--299), or
  fulfilled with a body that is \<open>null\<close> so that reading \<open>contexts\<close> throws, the
  handler sets the one fixed error message, clears \<open>loading\<close>, leaves the results
  as they were, and passes exactly the exception to \<open>console.error\<close>.
\<close>

theorem handleSubmit_resume_failure:
  assumes "a = Rejected f \<and> exc = AxiosError f \<or> a = Fulfilled JNull \<and> exc = TypeError"
  shows "handleSubmit_resume a =
           (us, logged) \<Longrightarrow>
         apply_upds us s = s\<lparr>error := Some fetch_error_msg, loading := False\<rparr> \<and> logged = [exc]"
  using assms by auto

theorem handleSubmit_resume_failure_witness:
  "(Rejected (BadStatus 500) = Rejected (BadStatus 500) \<and> AxiosError (BadStatus 500) = AxiosError (BadStatus 500)
    \<or> Rejected (BadStatus 500) = Fulfilled JNull \<and> AxiosError (BadStatus 500) = TypeError) \<and>
   apply_upds (fst (handleSubmit_resume (Rejected (BadStatus 500)))) init_state
     = init_state\<lparr>error := Some fetch_error_msg, loading := False\<rparr> \<and>
   snd (handleSubmit_resume (Rejected (BadStatus 500))) = [AxiosError (BadStatus 500)]"
  using handleSubmit_resume_failure [of "Rejected (BadStatus 500)" "BadStatus 500" "AxiosError (BadStatus 500)"
      "fst (handleSubmit_resume (Rejected (BadStatus 500)))" "snd (handleSubmit_resume (Rejected (BadStatus 500)))" init_state]
  by simp

text \<open>
  C5. Whatever the outcome of the request, the last update the resumed handler queues
  is \<open>setLoading(false)\<close> (the \<open>finally\<close> block), so no earlier update of the batch
  can leave the view loading.
\<close>

theorem handleSubmit_resume_loading_last:
  "last (fst (handleSubmit_resume a)) = SetLoading False \<and> \<not> loading (apply_upds (fst (handleSubmit_resume a)) s)"
  by (cases a) (auto split: sum.splits)

end
