(* ===== verification/Js_Number.thy ===== *)
theory Js_Number
  imports JS_Values
begin

text \<open>
  \<open>ToNumber\<close> and the comparison \<open>v > 0\<close>, which line 58 applies to
  \<open>results.length\<close>. Whatever \<open>contexts\<close> is, its \<open>length\<close> is read: a number for
  strings and arrays, but any JSON value for an object, so \<open>Number\<close> of a string is
  modelled in full (StringToNumber), and the rounding to binary64 where \<open>> 0\<close>
  depends on it. An object or an array may make the comparison throw
  (ToPrimitive, \<open>js_to_string\<close>), so \<open>js_to_number\<close> and \<open>js_gt_zero\<close>
  return \<open>js\<close> results.
\<close>

section \<open>Definitions\<close>

text \<open>
  \<open>ToNumber\<close>. A number is kept as the mathematical value its source denotes, before
  rounding to binary64: \<open>Finite neg m e\<close> is \<open>(-1)^neg * m * 10^e\<close>. This is exact
  for the integers of this model and for every numeral \<open>Number(s)\<close> reads; only
  the comparison \<open>v > 0\<close> below needs the rounding.
\<close>

datatype js_number = NaN | Infinity bool | Finite bool nat int

text \<open>
  \<open>Number(s)\<close> on a string (StringToNumber, ECMAScript 7.1.4.1): white space around
  it is ignored, an empty string is 0, \<open>0x\<close>/\<open>0o\<close>/\<open>0b\<close> numerals (either case,
  no sign) are read in their radix, otherwise an optional sign followed by
  \<open>Infinity\<close> or a decimal numeral with an optional fraction and exponent; anything
  else is \<open>NaN\<close>.
\<close>

definition digit_in :: "nat \<Rightarrow> char \<Rightarrow> nat option" where
  "digit_in r c =
     (let n = (of_char c :: nat);
          d = (if 48 \<le> n \<and> n \<le> 57 then Some (n - 48)
               else if 97 \<le> n \<and> n \<le> 122 then Some (n - 87)
               else if 65 \<le> n \<and> n \<le> 90 then Some (n - 55) else None) in
      case d of Some v \<Rightarrow> if v < r then Some v else None | None \<Rightarrow> None)"

fun radix_value :: "nat \<Rightarrow> nat \<Rightarrow> string \<Rightarrow> nat option" where
  "radix_value r acc [] = Some acc"
| "radix_value r acc (c # cs) =
     (case digit_in r c of Some d \<Rightarrow> radix_value r (r * acc + d) cs | None \<Rightarrow> None)"

definition non_decimal :: "string \<Rightarrow> js_number option" where
  "non_decimal t =
     (case t of
        z # p # ds \<Rightarrow>
          if z = CHR ''0'' \<and> p \<in> {CHR ''x'', CHR ''X'', CHR ''o'', CHR ''O'', CHR ''b'', CHR ''B''} then
            (let r = (if p \<in> {CHR ''x'', CHR ''X''} then 16 else if p \<in> {CHR ''o'', CHR ''O''} then 8 else 2) in
             Some (case (if ds = [] then None else radix_value r 0 ds) of
                     Some v \<Rightarrow> Finite False v 0 | None \<Rightarrow> NaN))
          else None
      | _ \<Rightarrow> None)"

definition unsigned_num :: "string \<Rightarrow> int option" where
  "unsigned_num ds = (if ds \<noteq> [] \<and> (\<forall>c \<in> set ds. is_digit c) then Some (int (dec_value ds)) else None)"

definition exponent_part :: "string \<Rightarrow> int option" where
  "exponent_part r =
     (if r = [] then Some 0
      else if hd r \<in> {CHR ''e'', CHR ''E''} then
        (case tl r of
           c # ds \<Rightarrow> if c = CHR ''+'' then unsigned_num ds
                     else if c = CHR ''-'' then map_option uminus (unsigned_num ds)
                     else unsigned_num (c # ds)
         | [] \<Rightarrow> None)
      else None)"

definition unsigned_decimal :: "string \<Rightarrow> (nat \<times> int) option" where
  "unsigned_decimal u =
     (let d1 = takeWhile is_digit u; r1 = dropWhile is_digit u in
      if r1 \<noteq> [] \<and> hd r1 = CHR ''.'' then
        (let d2 = takeWhile is_digit (tl r1); r2 = dropWhile is_digit (tl r1) in
         if d1 = [] \<and> d2 = [] then None
         else map_option (\<lambda>e. (dec_value (d1 @ d2), e - int (length d2))) (exponent_part r2))
      else if d1 = [] then None
      else map_option (\<lambda>e. (dec_value d1, e)) (exponent_part r1))"

definition str_to_number :: "string \<Rightarrow> js_number" where
  "str_to_number s =
     (let t = js_trim s in
      if t = [] then Finite False 0 0
      else case non_decimal t of
        Some v \<Rightarrow> v
      | None \<Rightarrow>
          (let neg = (hd t = CHR ''-'');
               u = (if hd t = CHR ''-'' \<or> hd t = CHR ''+'' then tl t else t) in
           if u = ''Infinity'' then Infinity neg
           else case unsigned_decimal u of Some (m, e) \<Rightarrow> Finite neg m e | None \<Rightarrow> NaN))"

text \<open>
  \<open>ToNumber\<close>: arrays and objects go through ToPrimitive with hint number, which for
  values decoded from JSON gives the same string as \<open>String(v)\<close>, or throws where it
  throws (\<open>js_to_string\<close>); for an object that string is \<open>"[object Object]"\<close>,
  which is \<open>NaN\<close>.
\<close>

fun js_to_number :: "jsval \<Rightarrow> js_number js" where
  "js_to_number JUndef = Inr NaN"
| "js_to_number JNull = Inr (Finite False 0 0)"
| "js_to_number (JBool b) = Inr (Finite False (if b then 1 else 0) 0)"
| "js_to_number (JNum n) = Inr (Finite (n < 0) (nat \<bar>n\<bar>) 0)"
| "js_to_number (JStr s) = Inr (str_to_number s)"
| "js_to_number (JArr xs) = sum_bind (js_to_string (JArr xs)) (\<lambda>t. Inr (str_to_number t))"
| "js_to_number (JObj kvs) = (if has_own kvs ''toString'' then Inl TypeError else Inr NaN)"

text \<open>
  \<open>v > 0\<close> (IsLessThan with the number \<open>0\<close>): \<open>v\<close> is converted first, and a
  throw of ToPrimitive is the result; a comparison with \<open>NaN\<close> is false. A positive value rounds to a positive
  binary64 number exactly when it exceeds half the smallest subnormal, \<open>2^-1075\<close>
  (round to nearest, ties to even); smaller values round to \<open>+0\<close>.
\<close>

definition rounds_positive :: "nat \<Rightarrow> int \<Rightarrow> bool" where
  "rounds_positive m e \<longleftrightarrow> 0 < m \<and> (0 \<le> e \<or> 10 ^ nat (- e) < m * 2 ^ 1075)"

definition js_gt_zero :: "jsval \<Rightarrow> bool js" where
  "js_gt_zero v =
     sum_bind (js_to_number v) (\<lambda>x. Inr
       (case x of
          NaN \<Rightarrow> False
        | Infinity neg \<Rightarrow> \<not> neg
        | Finite neg m e \<Rightarrow> \<not> neg \<and> rounds_positive m e))"

section \<open>Lemmas\<close>

lemma rounds_positive_0 [simp]: "rounds_positive m 0 \<longleftrightarrow> 0 < m"
  by (simp add: rounds_positive_def)

lemma js_gt_zero_JNum [simp]: "js_gt_zero (JNum n) = Inr (0 < n)"
  by (auto simp: js_gt_zero_def)

lemma js_gt_zero_JNum_nat [js_simps]: "js_gt_zero (JNum (int n)) = Inr (n \<noteq> 0)"
  by simp

lemma js_to_number_Inl_iff: "isl (js_to_number v) \<longleftrightarrow> to_primitive_throws v"
  by (cases v) (auto simp: isl_sum_bind js_to_string_Inl_iff [symmetric] not_isl_iff)

text \<open>\<open>v > 0\<close> throws exactly where ToPrimitive does.\<close>

lemma js_gt_zero_Inl_iff: "isl (js_gt_zero v) \<longleftrightarrow> to_primitive_throws v"
  by (cases "js_to_number v") (auto simp: js_gt_zero_def js_to_number_Inl_iff [symmetric])

end
