(* ===== verification/Render.thy ===== *)
theory Render
  imports App_State Js_Number
begin

text \<open>
  The JSX that \<open>App\<close> returns (App.js, lines 38--72), as the tree of the parts that
  depend on the state: the input's value, the button's \<open>disabled\<close> flag and label, the
  error banner, and the results area (one card per result, the placeholder, or
  nothing). Evaluating the JSX may throw (\<open>results.length\<close> on \<open>undefined\<close>,
  \<open>results.map\<close> on a non-array, \<open>result.source_title\<close> on \<open>null\<close>), so \<open>render\<close>
  returns \<open>view js\<close>. A card keeps the raw values of the three fields it reads; how
  React DOM turns them into text and an \<open>href\<close> attribute (the link's \<open>target\<close> is
  fixed, \<open>_blank\<close>: a new browsing context), and that it rejects an
  object as a child, is \<open>react_text\<close> and \<open>react_href\<close> below (library behaviour).
\<close>

record card =
  card_key :: nat
  card_title :: jsval
  card_snippet :: jsval
  card_href :: jsval
  card_target :: string

datatype body = Cards "card list" | Placeholder | NoBody

record view =
  v_input :: string
  v_disabled :: bool
  v_label :: string
  v_error :: "string option"
  v_body :: body

section \<open>The App's JSX\<close>

text \<open>The callback of \<open>results.map\<close> (lines 59--67), for the result at index \<open>i\<close>.\<close>

definition render_card :: "nat \<Rightarrow> jsval \<Rightarrow> card js" where
  "render_card i r =
     sum_bind (get_prop r ''source_title'') (\<lambda>t.
     sum_bind (get_prop r ''text_snippet'') (\<lambda>sn.
     sum_bind (get_prop r ''source_url'') (\<lambda>u.
       Inr \<lparr>card_key = i, card_title = t, card_snippet = sn, card_href = u, card_target = ''_blank''\<rparr>)))"

text \<open>\<open>Array.prototype.map\<close> calls the callback in index order; the first throw aborts it.\<close>

primrec render_cards :: "nat \<Rightarrow> jsval list \<Rightarrow> card list js" where
  "render_cards i [] = Inr []"
| "render_cards i (r # rs) =
     sum_bind (render_card i r) (\<lambda>c. sum_bind (render_cards (Suc i) rs) (\<lambda>cs. Inr (c # cs)))"

text \<open>\<open>{error && \<dots>}\<close> (line 55): \<open>null\<close> and the empty string render nothing.\<close>

definition error_banner :: "string option \<Rightarrow> string option" where
  "error_banner e = (case e of Some m \<Rightarrow> if m \<noteq> [] then Some m else None | None \<Rightarrow> None)"

text \<open>Lines 58--70: the conditional on \<open>results.length > 0\<close>.\<close>

definition render_results :: "app_state \<Rightarrow> body js" where
  "render_results s =
     sum_bind (get_prop (results s) ''length'') (\<lambda>len.
     sum_bind (js_gt_zero len) (\<lambda>pos.
       if pos
       then sum_bind (array_elems (results s)) (\<lambda>xs.
              sum_bind (render_cards 0 xs) (\<lambda>cs. Inr (Cards cs)))
       else Inr (if \<not> loading s then Placeholder else NoBody)))"

definition render :: "app_state \<Rightarrow> view js" where
  "render s =
     sum_bind (render_results s) (\<lambda>b.
       Inr \<lparr>v_input = query s, v_disabled = loading s,
            v_label = (if loading s then ''Searching...'' else ''Search''),
            v_error = error_banner (error s), v_body = b\<rparr>)"

section \<open>React DOM: text children and attributes\<close>

text \<open>
  A child \<open>null\<close>, \<open>undefined\<close> or boolean renders nothing, a string or number renders
  its text, an array renders its elements in order, and an object throws
  ``Objects are not valid as a React child'' (\<open>None\<close>).
\<close>

fun react_text :: "jsval \<Rightarrow> string option" where
  "react_text JUndef = Some []"
| "react_text JNull = Some []"
| "react_text (JBool b) = Some []"
| "react_text (JNum n) = Some (int_to_dec n)"
| "react_text (JStr s) = Some s"
| "react_text (JArr xs) =
     foldr (\<lambda>v acc. case (react_text v, acc) of
                       (Some t, Some u) \<Rightarrow> Some (t @ u) | _ \<Rightarrow> None) xs (Some [])"
| "react_text (JObj kvs) = None"

text \<open>
  An \<open>href\<close> of \<open>null\<close>, \<open>undefined\<close> or a boolean is omitted; anything else is
  stringified (\<open>'' + v\<close>), which throws where ToPrimitive throws.
\<close>

fun react_href :: "jsval \<Rightarrow> string option js" where
  "react_href JUndef = Inr None"
| "react_href JNull = Inr None"
| "react_href (JBool b) = Inr None"
| "react_href v = sum_bind (js_to_string v) (\<lambda>t. Inr (Some t))"

definition card_mounts :: "card \<Rightarrow> bool" where
  "card_mounts c \<longleftrightarrow>
     react_text (card_title c) \<noteq> None \<and> react_text (card_snippet c) \<noteq> None \<and>
     \<not> isl (react_href (card_href c))"

definition view_mounts :: "view \<Rightarrow> bool" where
  "view_mounts v \<longleftrightarrow> (case v_body v of Cards cs \<Rightarrow> (\<forall>c \<in> set cs. card_mounts c) | _ \<Rightarrow> True)"

text \<open>A render commits when the JSX evaluates and React DOM accepts every child.\<close>

definition commits :: "app_state \<Rightarrow> bool" where
  "commits s \<longleftrightarrow> (case render s of Inr v \<Rightarrow> view_mounts v | Inl e \<Rightarrow> False)"

section \<open>Lemmas\<close>

lemma render_cards_length:
  "render_cards i xs = Inr cs \<Longrightarrow> length cs = length xs"
  by (induction xs arbitrary: i cs) (auto simp: sum_bind_eq_Inr)

lemma render_card_Inl_iff: "isl (render_card i r) \<longleftrightarrow> r = JUndef \<or> r = JNull"
  by (cases r) (simp_all add: render_card_def)

lemma render_cards_Inl_iff:
  "isl (render_cards i xs) \<longleftrightarrow> (\<exists>r \<in> set xs. r = JUndef \<or> r = JNull)"
proof (induction xs arbitrary: i)
  case Nil
  then show ?case by simp
next
  case (Cons r rs)
  show ?case
  proof (cases "render_card i r")
    case (Inl e)
    then show ?thesis using render_card_Inl_iff [of i r] by simp
  next
    case (Inr c)
    then have "\<not> (r = JUndef \<or> r = JNull)" using render_card_Inl_iff [of i r] by simp
    with Inr Cons.IH [of "Suc i"] show ?thesis by (cases "render_cards (Suc i) rs") auto
  qed
qed

lemma commits_empty_results: "results s = JArr [] \<Longrightarrow> commits s"
  by (simp add: commits_def render_def render_results_def view_mounts_def)

lemma render_results_query_update [simp]: "render_results (s\<lparr>query := q\<rparr>) = render_results s"
  by (simp add: render_results_def cong: if_cong)

lemma commits_query_update [simp]: "commits (s\<lparr>query := q\<rparr>) = commits s"
  by (cases "render_results s") (simp_all add: commits_def render_def view_mounts_def)

lemma render_Inl_iff: "isl (render s) \<longleftrightarrow> isl (render_results s)"
  by (cases "render_results s") (simp_all add: render_def)

lemma render_cards_keys:
  "render_cards i xs = Inr cs \<Longrightarrow> map card_key cs = [i..<i + length xs]"
proof (induction xs arbitrary: i cs)
  case Nil
  then show ?case by simp
next
  case (Cons r rs)
  then obtain c cs' where "render_card i r = Inr c" "render_cards (Suc i) rs = Inr cs'" "cs = c # cs'"
    by auto
  with Cons.IH [of "Suc i" cs'] show ?case
    by (auto simp: render_card_def upt_rec)
qed

lemma render_cards_objects:
  "\<forall>r \<in> set xs. \<exists>kvs. r = JObj kvs \<Longrightarrow> \<exists>cs. render_cards i xs = Inr cs"
  by (induction xs arbitrary: i) (auto simp: render_card_def)

section \<open>Properties of rendering\<close>

text \<open>
  C12. The JSX throws exactly when \<open>results\<close> is \<open>null\<close> or \<open>undefined\<close>
  (line 58 reads \<open>results.length\<close>), when converting \<open>results.length\<close> to a
  number for \<open>> 0\<close> throws (an object with an own \<open>toString\<close> member, or an array
  reaching one), or when \<open>results.length > 0\<close> holds and \<open>results\<close> is not an
  array (line 59, \<open>.map\<close> is not a function) or holds a \<open>null\<close> or
  \<open>undefined\<close> element (lines 61--64). A number, a boolean, or an object whose
  \<open>length\<close> converts without throwing to a number that is not positive renders
  the placeholder without any error.
\<close>

theorem render_throws_iff:
  "isl (render s) \<longleftrightarrow>
     results s = JUndef \<or> results s = JNull \<or>
     (\<exists>len. get_prop (results s) ''length'' = Inr len \<and>
        (to_primitive_throws len \<or>
         js_gt_zero len = Inr True \<and>
         (case results s of JArr xs \<Rightarrow> \<exists>r \<in> set xs. r = JUndef \<or> r = JNull | _ \<Rightarrow> True)))"
proof -
  let ?rhs = "results s = JUndef \<or> results s = JNull \<or>
     (\<exists>len. get_prop (results s) ''length'' = Inr len \<and>
        (to_primitive_throws len \<or>
         js_gt_zero len = Inr True \<and>
         (case results s of JArr xs \<Rightarrow> \<exists>r \<in> set xs. r = JUndef \<or> r = JNull | _ \<Rightarrow> True)))"
  have gt: "isl (sum_bind (js_gt_zero len) f) \<longleftrightarrow>
              to_primitive_throws len \<or> (js_gt_zero len = Inr True \<and> isl (f True)) \<or>
              (js_gt_zero len = Inr False \<and> isl (f False))" for len and f :: "bool \<Rightarrow> body js"
  proof (cases "js_gt_zero len")
    case (Inr b)
    then show ?thesis using js_gt_zero_Inl_iff [of len] by (cases b) auto
  qed (use js_gt_zero_Inl_iff [of len] in auto)
  have "isl (render_results s) \<longleftrightarrow> ?rhs"
  proof (cases "results s")
    case (JArr xs)
    then show ?thesis using render_cards_Inl_iff [of 0 xs]
      by (cases "render_cards 0 xs") (auto simp: render_results_def)
  qed (auto simp: render_results_def gt)
  then show ?thesis by (simp add: render_Inl_iff)
qed

text \<open>
  C13. When the backend's \<open>contexts\<close> is an array of objects, whatever fields they
  have, the view renders without throwing, with one card per element, keyed by its
  index, in the array's order; an empty array shows the placeholder, or nothing while
  loading.
\<close>

theorem render_array_cards:
  assumes "results s = JArr xs" and "\<forall>r \<in> set xs. \<exists>kvs. r = JObj kvs"
  shows "\<exists>v. render s = Inr v \<and>
           (if xs = [] then v_body v = (if loading s then NoBody else Placeholder)
            else \<exists>cs. v_body v = Cards cs \<and> map card_key cs = [0..<length xs])"
proof -
  obtain cs where cs: "render_cards 0 xs = Inr cs"
    using render_cards_objects [OF assms(2)] by blast
  show ?thesis
    using assms(1) cs render_cards_keys [OF cs]
    by (auto simp: render_def render_results_def js_gt_zero_def)
qed

theorem render_array_cards_witness:
  "results (init_state\<lparr>results := JArr [JObj [(''source_title'', JStr ''Doc A'')], JObj []]\<rparr>)
     = JArr [JObj [(''source_title'', JStr ''Doc A'')], JObj []] \<and>
   (\<exists>kvs. JObj [(''source_title'', JStr ''Doc A'')] = JObj kvs) \<and> (\<exists>kvs. JObj [] = JObj kvs) \<and>
   (\<exists>v. render (init_state\<lparr>results := JArr [JObj [(''source_title'', JStr ''Doc A'')], JObj []]\<rparr>) = Inr v \<and>
        (\<exists>cs. v_body v = Cards cs \<and> map card_key cs = [0, 1]))"
proof -
  have h1: "results (init_state\<lparr>results := JArr [JObj [(''source_title'', JStr ''Doc A'')], JObj []]\<rparr>)
     = JArr [JObj [(''source_title'', JStr ''Doc A'')], JObj []]" by simp
  have h2: "\<forall>r \<in> set [JObj [(''source_title'', JStr ''Doc A'')], JObj []]. \<exists>kvs. r = JObj kvs" by simp
  show ?thesis using render_array_cards [OF h1 h2] by (simp add: upt_rec)
qed

end
