(* ===== verification/Runtime.thy ===== *)
theory Runtime
  imports Handle_Submit Render
begin

text \<open>
  The page at run time: the component's state, whether React still has it mounted,
  the requests whose promises have not settled (in issue order), and what the handler
  has passed to \<open>console.error\<close>. Events are the ones the page reacts to: typing
  (\<open>onChange\<close>, line 47), submitting the form through its button or the Enter key
  (which the browser does not do while the submit button is disabled, line 50),
  submitting the form from a script (\<open>form.requestSubmit()\<close>, which ignores the
  button), and the settling of the \<open>i\<close>-th pending request with a reply from the
  backend, in any order. After each event React applies the queued batch and
  renders; a render that throws unmounts the tree (there is no error boundary), and
  updates queued after that are ignored.
\<close>

record world =
  st :: app_state
  mounted :: bool
  inflight :: "request list"
  console :: "js_exc list"

definition init_world :: world where
  "init_world = \<lparr>st = init_state, mounted = True, inflight = [], console = []\<rparr>"

definition commit :: "upd list \<Rightarrow> world \<Rightarrow> world" where
  "commit us w =
     (if mounted w then (let s' = apply_upds us (st w) in w\<lparr>st := s', mounted := commits s'\<rparr>)
      else w)"

datatype event = Change string | Submit | ScriptSubmit | Arrive nat http_reply

definition do_submit :: "world \<Rightarrow> world" where
  "do_submit w =
     (case handleSubmit (st w) of
        Returned us \<Rightarrow> commit us w
      | Awaiting us r \<Rightarrow> commit us (w\<lparr>inflight := inflight w @ [r]\<rparr>))"

fun world_step :: "world \<Rightarrow> event \<Rightarrow> world option" where
  "world_step w (Change q) = (if mounted w then Some (commit [SetQuery q] w) else None)"
| "world_step w Submit =
     (if mounted w \<and> \<not> loading (st w) then Some (do_submit w) else None)"
| "world_step w ScriptSubmit = (if mounted w then Some (do_submit w) else None)"
| "world_step w (Arrive i rep) =
     (if i < length (inflight w)
      then (case handleSubmit_resume (axios_post rep) of (us, logged) \<Rightarrow>
              Some (commit us (w\<lparr>inflight := remove_nth i (inflight w),
                                  console := console w @ logged\<rparr>)))
      else None)"

fun run :: "world \<Rightarrow> event list \<Rightarrow> world option" where
  "run w [] = Some w"
| "run w (e # es) = (case world_step w e of None \<Rightarrow> None | Some w' \<Rightarrow> run w' es)"

fun user_event :: "event \<Rightarrow> bool" where
  "user_event ScriptSubmit = False"
| "user_event _ = True"

inductive reach :: "(event \<Rightarrow> bool) \<Rightarrow> world \<Rightarrow> bool" for ok where
  reach_init: "reach ok init_world"
| reach_step: "reach ok w \<Longrightarrow> ok e \<Longrightarrow> world_step w e = Some w' \<Longrightarrow> reach ok w'"

fun_cases world_step_SubmitE: "world_step w Submit = Some w'"
fun_cases world_step_ArriveE: "world_step w (Arrive i rep) = Some w'"

text \<open>The invariant of a page driven only by its user: see \<open>reach_user_single_request\<close>.\<close>

definition ui_inv :: "world \<Rightarrow> bool" where
  "ui_inv w \<longleftrightarrow>
     length (inflight w) \<le> 1 \<and> (loading (st w) \<longleftrightarrow> inflight w \<noteq> []) \<and>
     (\<not> mounted w \<longrightarrow> inflight w = []) \<and> (mounted w \<longrightarrow> commits (st w))"

text \<open>
  What holds on every reachable page, whatever drives it: \<open>loading\<close> only while a
  request is pending, not after an unmount, and a mounted page renders.
\<close>

definition settle_inv :: "world \<Rightarrow> bool" where
  "settle_inv w \<longleftrightarrow>
     (loading (st w) \<longrightarrow> inflight w \<noteq> []) \<and> (\<not> mounted w \<longrightarrow> \<not> loading (st w)) \<and>
     (mounted w \<longrightarrow> commits (st w))"

section \<open>Lemmas on a single step\<close>

lemma inflight_commit [simp]: "inflight (commit us w) = inflight w"
  by (simp add: commit_def Let_def)

lemma console_commit [simp]: "console (commit us w) = console w"
  by (simp add: commit_def Let_def)

lemma commit_mounted:
  "mounted w \<Longrightarrow> st (commit us w) = apply_upds us (st w) \<and> mounted (commit us w) = commits (apply_upds us (st w))"
  by (simp add: commit_def Let_def)

lemma commit_unmounted [simp]: "\<not> mounted w \<Longrightarrow> commit us w = w"
  by (simp add: commit_def)

lemma handleSubmit_Returned_loading:
  "handleSubmit s = Returned us \<Longrightarrow> \<not> loading (apply_upds us s)"
  by (auto simp: handleSubmit_def Let_def split: if_splits)

lemma handleSubmit_Awaiting_loading:
  "handleSubmit s = Awaiting us r \<Longrightarrow> loading (apply_upds us s)"
  by (auto simp: handleSubmit_def Let_def split: if_splits)

lemma handleSubmit_resume_loading:
  "handleSubmit_resume a = (us, logged) \<Longrightarrow> \<not> loading (apply_upds us s)"
  by (cases a) (auto split: sum.splits)

lemma commit_empty_results:
  "mounted w \<Longrightarrow> results (apply_upds us (st w)) = JArr [] \<Longrightarrow> mounted (commit us w)"
  by (simp add: commit_mounted commits_empty_results)

lemma handleSubmit_results:
  "handleSubmit s = Returned us \<or> handleSubmit s = Awaiting us r \<Longrightarrow> results (apply_upds us s) = JArr []"
  by (auto simp: handleSubmit_def Let_def split: if_splits)

lemma ui_inv_init: "ui_inv init_world"
  by (simp add: ui_inv_def init_world_def init_state_def commits_empty_results)

lemma ui_inv_Change: "ui_inv w \<Longrightarrow> world_step w (Change q) = Some w' \<Longrightarrow> ui_inv w'"
  by (auto simp: ui_inv_def commit_mounted commits_empty_results split: if_splits)

lemma ui_inv_Submit: "ui_inv w \<Longrightarrow> world_step w Submit = Some w' \<Longrightarrow> ui_inv w'"
proof -
  assume inv: "ui_inv w" and step: "world_step w Submit = Some w'"
  then have m: "mounted w" and nl: "\<not> loading (st w)" and w': "w' = do_submit w"
    by (auto split: if_splits)
  with inv have none: "inflight w = []" by (simp add: ui_inv_def)
  show "ui_inv w'"
  proof (cases "handleSubmit (st w)")
    case (Returned us)
    then show ?thesis using m none w' handleSubmit_Returned_loading [OF Returned]
        commit_empty_results [OF m handleSubmit_results]
      by (simp add: ui_inv_def do_submit_def commit_mounted)
  next
    case (Awaiting us r)
    let ?w1 = "w\<lparr>inflight := inflight w @ [r]\<rparr>"
    have m1: "mounted ?w1" using m by simp
    show ?thesis using m none w' Awaiting handleSubmit_Awaiting_loading [OF Awaiting]
        commit_empty_results [OF m1, of us] handleSubmit_results [of "st w" us r]
      by (simp add: ui_inv_def do_submit_def commit_mounted)
  qed
qed

lemma ui_inv_Arrive: "ui_inv w \<Longrightarrow> world_step w (Arrive i rep) = Some w' \<Longrightarrow> ui_inv w'"
proof -
  assume inv: "ui_inv w" and step: "world_step w (Arrive i rep) = Some w'"
  obtain us logged where r: "handleSubmit_resume (axios_post rep) = (us, logged)"
    by (cases "handleSubmit_resume (axios_post rep)")
  from step have i: "i < length (inflight w)" by (simp split: if_splits)
  with inv obtain x where one: "inflight w = [x]" and i0: "i = 0" and m: "mounted w"
    by (cases "inflight w") (auto simp: ui_inv_def)
  from step r i have w': "w' = commit us (w\<lparr>inflight := [], console := console w @ logged\<rparr>)"
    by (simp add: one i0)
  show "ui_inv w'"
    using m handleSubmit_resume_loading [OF r]
    by (simp add: w' ui_inv_def commit_mounted)
qed

lemma ui_inv_step: "ui_inv w \<Longrightarrow> user_event e \<Longrightarrow> world_step w e = Some w' \<Longrightarrow> ui_inv w'"
  by (cases e) (auto intro: ui_inv_Change ui_inv_Submit ui_inv_Arrive)

lemma reach_user_ui_inv: "reach user_event w \<Longrightarrow> ui_inv w"
proof (induction rule: reach.induct)
  case reach_init
  show ?case by (rule ui_inv_init)
next
  case (reach_step w e w')
  then show ?case by (blast intro: ui_inv_step)
qed

lemma mounted_commits_step:
  "mounted w \<longrightarrow> commits (st w) \<Longrightarrow> world_step w e = Some w' \<Longrightarrow> mounted w' \<longrightarrow> commits (st w')"
  by (cases e) (auto simp: commit_def do_submit_def Let_def split: if_splits prod.splits submit_outcome.splits)

lemma reach_mounted_commits: "reach ok w \<Longrightarrow> mounted w \<longrightarrow> commits (st w)"
proof (induction rule: reach.induct)
  case reach_init
  show ?case by (simp add: init_world_def init_state_def commits_empty_results)
next
  case (reach_step w e w')
  then show ?case by (blast intro: mounted_commits_step [rule_format])
qed

lemma run_reach: "reach ok w \<Longrightarrow> run w es = Some w' \<Longrightarrow> \<forall>e \<in> set es. ok e \<Longrightarrow> reach ok w'"
proof (induction es arbitrary: w)
  case Nil
  then show ?case by simp
next
  case (Cons e es)
  then obtain w1 where "world_step w e = Some w1" and "run w1 es = Some w'"
    by (auto split: option.splits)
  with Cons show ?case by (auto intro: reach_step)
qed

text \<open>A reply leaves the query alone and, on a page still mounted, applies the handler's batch.\<close>

lemma arrive_step:
  assumes "world_step w (Arrive i rep) = Some w'"
  shows "query (st w') = query (st w)"
    and "mounted w' \<Longrightarrow> axios_post rep = Fulfilled d \<Longrightarrow> get_prop d ''contexts'' = Inr ctx \<Longrightarrow>
           results (st w') = ctx"
proof -
  obtain us logged where r: "handleSubmit_resume (axios_post rep) = (us, logged)"
    by (cases "handleSubmit_resume (axios_post rep)")
  from assms r have w': "w' = commit us (w\<lparr>inflight := remove_nth i (inflight w), console := console w @ logged\<rparr>)"
    by (simp split: if_splits)
  have q: "query (apply_upds us s) = query s" for s
    using handleSubmit_resume_state [OF r, of s] by (simp split: axios_result.splits sum.splits)
  show "query (st w') = query (st w)"
    using q by (cases "mounted w") (simp_all add: w' commit_mounted)
  assume "mounted w'" and f: "axios_post rep = Fulfilled d" and c: "get_prop d ''contexts'' = Inr ctx"
  then have "mounted w" by (cases "mounted w") (simp_all add: w')
  with f c show "results (st w') = ctx"
    using handleSubmit_resume_state [OF r, of "st w"] by (simp add: w' commit_mounted)
qed

lemma settle_inv_init: "settle_inv init_world"
  by (simp add: settle_inv_def init_world_def init_state_def commits_empty_results)

lemma settle_inv_do_submit:
  assumes m: "mounted w"
  shows "settle_inv (do_submit w)"
proof (cases "handleSubmit (st w)")
  case (Returned us)
  then show ?thesis
    using m handleSubmit_Returned_loading [OF Returned] commit_empty_results [OF m handleSubmit_results]
    by (simp add: settle_inv_def do_submit_def commit_mounted)
next
  case (Awaiting us r)
  let ?w1 = "w\<lparr>inflight := inflight w @ [r]\<rparr>"
  have "mounted ?w1" using m by simp
  with Awaiting show ?thesis
    using handleSubmit_Awaiting_loading [OF Awaiting] commit_empty_results [of ?w1 us] handleSubmit_results [of "st w" us r]
    by (simp add: settle_inv_def do_submit_def commit_mounted)
qed

lemma settle_inv_step:
  assumes inv: "settle_inv w" and step: "world_step w e = Some w'"
  shows "settle_inv w'"
proof (cases e)
  case (Change q)
  with inv step show ?thesis by (auto simp: settle_inv_def commit_mounted split: if_splits)
next
  case Submit
  with step show ?thesis by (auto intro: settle_inv_do_submit split: if_splits)
next
  case ScriptSubmit
  with step show ?thesis by (auto intro: settle_inv_do_submit split: if_splits)
next
  case (Arrive i rep)
  obtain us logged where r: "handleSubmit_resume (axios_post rep) = (us, logged)"
    by (cases "handleSubmit_resume (axios_post rep)")
  from step Arrive r have w': "w' = commit us (w\<lparr>inflight := remove_nth i (inflight w), console := console w @ logged\<rparr>)"
    by (simp split: if_splits)
  show ?thesis
  proof (cases "mounted w")
    case True
    with w' handleSubmit_resume_loading [OF r] show ?thesis by (simp add: settle_inv_def commit_mounted)
  next
    case False
    with w' inv show ?thesis by (simp add: settle_inv_def)
  qed
qed

lemma reach_settle_inv: "reach ok w \<Longrightarrow> settle_inv w"
  by (induction rule: reach.induct) (auto intro: settle_inv_init settle_inv_step)

text \<open>The equations that evaluate a concrete run of the page.\<close>

lemmas run_eval = init_world_def init_state_def commit_def do_submit_def handleSubmit_def
  ask_request_def js_trim_def js_ws_def commits_def render_def render_results_def
  js_gt_zero_def view_mounts_def card_mounts_def render_card_def error_banner_def

section \<open>Properties of the running page\<close>

text \<open>
  C6. As long as only the user drives the page (typing, the submit button or Enter,
  replies arriving), at most one request is pending, the view shows loading exactly
  while one is pending, and the page can only have been unmounted with no request
  pending: the disabled button is a sufficient guard against overlapping requests.
\<close>

theorem reach_user_single_request:
  "reach user_event w \<Longrightarrow>
     length (inflight w) \<le> 1 \<and> (loading (st w) \<longleftrightarrow> inflight w \<noteq> []) \<and>
     (\<not> mounted w \<longrightarrow> inflight w = [])"
  using reach_user_ui_inv by (simp add: ui_inv_def)

theorem reach_user_single_request_witness:
  "reach user_event (the (run init_world [Change ''a'', Submit])) \<and>
   length (inflight (the (run init_world [Change ''a'', Submit]))) = 1 \<and>
   loading (st (the (run init_world [Change ''a'', Submit]))) \<and>
   mounted (the (run init_world [Change ''a'', Submit]))"
proof -
  have e: "run init_world [Change ''a'', Submit] = Some (the (run init_world [Change ''a'', Submit]))"
    by (simp add: run_eval)
  have r: "reach user_event (the (run init_world [Change ''a'', Submit]))"
    using run_reach [OF reach_init e] by simp
  define W where "W = the (run init_world [Change ''a'', Submit])"
  have c: "mounted W" "inflight W \<noteq> []"
    by (simp_all add: W_def run_eval)
  have inv: "length (inflight W) \<le> 1 \<and> (loading (st W) \<longleftrightarrow> inflight W \<noteq> []) \<and>
      (\<not> mounted W \<longrightarrow> inflight W = [])"
    unfolding W_def by (rule reach_user_single_request [OF r])
  then have "length (inflight W) = 1 \<and> loading (st W)"
    using c by (cases "inflight W") auto
  with r c show ?thesis unfolding W_def by blast
qed

text \<open>
  C7. The guard is only the button: a form submitted from a script while a request is
  pending issues a second request, and when the first settles the view stops showing
  loading and re-enables the button although a request is still pending.
\<close>

theorem script_submit_overlap:
  "\<exists>w. reach (\<lambda>e. True) w \<and> mounted w \<and> \<not> loading (st w) \<and> inflight w \<noteq> []"
proof -
  let ?evs = "[Change ''a'', ScriptSubmit, ScriptSubmit, Arrive 0 NoReply]"
  obtain w where run: "run init_world ?evs = Some w" and
    props: "mounted w \<and> \<not> loading (st w) \<and> inflight w \<noteq> []"
    by (simp add: run_eval)
  have "reach (\<lambda>e. True) w" by (rule run_reach [OF reach_init run]) simp
  with props show ?thesis by blast
qed

text \<open>
  C8. Replies are not matched to the query they answer: whichever pending request each
  reply settles and in whatever order the replies arrive, a page that is still
  mounted afterwards shows the \<open>contexts\<close> of the last reply to arrive, under the
  query input as it was. A slow reply for an earlier query therefore replaces the
  results of a later one.
\<close>

theorem last_arrival_wins:
  assumes "run w (map (\<lambda>(i, rep). Arrive i rep) arrivals) = Some w'" and "arrivals \<noteq> []"
    and "mounted w'"
    and "axios_post (snd (last arrivals)) = Fulfilled d" and "get_prop d ''contexts'' = Inr ctx"
  shows "results (st w') = ctx \<and> query (st w') = query (st w)"
  using assms
proof (induction arrivals arbitrary: w)
  case Nil
  then show ?case by simp
next
  case (Cons a as)
  obtain i rep where a: "a = (i, rep)" by (cases a)
  from Cons.prems(1) a obtain w1 where s1: "world_step w (Arrive i rep) = Some w1"
    and r1: "run w1 (map (\<lambda>(i, rep). Arrive i rep) as) = Some w'"
    by (auto split: option.splits)
  show ?case
  proof (cases "as = []")
    case True
    with r1 have "w' = w1" by simp
    with True a Cons.prems(3-5) arrive_step [OF s1] show ?thesis by simp
  next
    case False
    with Cons.IH [OF r1] Cons.prems(3-5) have "results (st w') = ctx \<and> query (st w') = query (st w1)"
      by simp
    moreover have "query (st w1) = query (st w)"
      by (rule arrive_step(1) [OF s1])
    ultimately show ?thesis by simp
  qed
qed

theorem last_arrival_wins_witness:
  "run (init_world\<lparr>st := init_state\<lparr>query := ''b'', loading := True\<rparr>,
                    inflight := [ask_request ''a'', ask_request ''b'']\<rparr>)
       (map (\<lambda>(i, rep). Arrive i rep)
          [(1, Reply 200 (JsonBody (JObj [(''contexts'', JArr [JObj [(''source_title'', JStr ''B'')]])]))),
           (0, Reply 200 (JsonBody (JObj [(''contexts'', JArr [JObj [(''source_title'', JStr ''A'')]])])))])
     = Some (the (run (init_world\<lparr>st := init_state\<lparr>query := ''b'', loading := True\<rparr>,
                    inflight := [ask_request ''a'', ask_request ''b'']\<rparr>)
       (map (\<lambda>(i, rep). Arrive i rep)
          [(1, Reply 200 (JsonBody (JObj [(''contexts'', JArr [JObj [(''source_title'', JStr ''B'')]])]))),
           (0, Reply 200 (JsonBody (JObj [(''contexts'', JArr [JObj [(''source_title'', JStr ''A'')]])])))]))) \<and>
   mounted (the (run (init_world\<lparr>st := init_state\<lparr>query := ''b'', loading := True\<rparr>,
                    inflight := [ask_request ''a'', ask_request ''b'']\<rparr>)
       (map (\<lambda>(i, rep). Arrive i rep)
          [(1, Reply 200 (JsonBody (JObj [(''contexts'', JArr [JObj [(''source_title'', JStr ''B'')]])]))),
           (0, Reply 200 (JsonBody (JObj [(''contexts'', JArr [JObj [(''source_title'', JStr ''A'')]])])))]))) \<and>
   results (st (the (run (init_world\<lparr>st := init_state\<lparr>query := ''b'', loading := True\<rparr>,
                    inflight := [ask_request ''a'', ask_request ''b'']\<rparr>)
       (map (\<lambda>(i, rep). Arrive i rep)
          [(1, Reply 200 (JsonBody (JObj [(''contexts'', JArr [JObj [(''source_title'', JStr ''B'')]])]))),
           (0, Reply 200 (JsonBody (JObj [(''contexts'', JArr [JObj [(''source_title'', JStr ''A'')]])])))]))))
     = JArr [JObj [(''source_title'', JStr ''A'')]] \<and>
   query (st (the (run (init_world\<lparr>st := init_state\<lparr>query := ''b'', loading := True\<rparr>,
                    inflight := [ask_request ''a'', ask_request ''b'']\<rparr>)
       (map (\<lambda>(i, rep). Arrive i rep)
          [(1, Reply 200 (JsonBody (JObj [(''contexts'', JArr [JObj [(''source_title'', JStr ''B'')]])]))),
           (0, Reply 200 (JsonBody (JObj [(''contexts'', JArr [JObj [(''source_title'', JStr ''A'')]])])))])))) = ''b''"
proof -
  define w where "w = init_world\<lparr>st := init_state\<lparr>query := ''b'', loading := True\<rparr>,
                    inflight := [ask_request ''a'', ask_request ''b'']\<rparr>"
  define as where "as = [(1::nat, Reply 200 (JsonBody (JObj [(''contexts'', JArr [JObj [(''source_title'', JStr ''B'')]])]))),
           (0, Reply 200 (JsonBody (JObj [(''contexts'', JArr [JObj [(''source_title'', JStr ''A'')]])])))]"
  define W where "W = the (run w (map (\<lambda>(i, rep). Arrive i rep) as))"
  have e: "run w (map (\<lambda>(i, rep). Arrive i rep) as) = Some W"
    by (simp add: W_def w_def as_def run_eval)
  have m: "mounted W" by (simp add: W_def w_def as_def run_eval)
  have "results (st W) = JArr [JObj [(''source_title'', JStr ''A'')]] \<and> query (st W) = query (st w)"
    by (rule last_arrival_wins [OF e _ m, where d = "JObj [(''contexts'', JArr [JObj [(''source_title'', JStr ''A'')]])]"])
       (simp_all add: as_def)
  with e m show ?thesis unfolding W_def w_def as_def by simp
qed

text \<open>
  C9. Whatever the backend replies, a pending request of a user-driven page can settle,
  and afterwards nothing is pending, the view is not loading, and, if the page is
  still mounted, the submit button accepts the next query.
\<close>

theorem user_reply_reenables_submit:
  assumes "reach user_event w" and "inflight w \<noteq> []"
  shows "\<exists>w'. world_step w (Arrive 0 rep) = Some w' \<and> inflight w' = [] \<and>
              \<not> loading (st w') \<and> (mounted w' \<longrightarrow> world_step w' Submit \<noteq> None)"
proof -
  from assms(1) have inv: "ui_inv w" by (rule reach_user_ui_inv)
  with assms(2) obtain x where one: "inflight w = [x]" and m: "mounted w"
    by (cases "inflight w") (auto simp: ui_inv_def)
  obtain us logged where r: "handleSubmit_resume (axios_post rep) = (us, logged)"
    by (cases "handleSubmit_resume (axios_post rep)")
  let ?w' = "commit us (w\<lparr>inflight := [], console := console w @ logged\<rparr>)"
  have step: "world_step w (Arrive 0 rep) = Some ?w'" by (simp add: one r)
  have "\<not> loading (st ?w')" using m handleSubmit_resume_loading [OF r] by (simp add: commit_mounted)
  with step show ?thesis by auto
qed

theorem user_reply_reenables_submit_witness:
  "reach user_event (the (run init_world [Change ''a'', Submit])) \<and>
   inflight (the (run init_world [Change ''a'', Submit])) \<noteq> [] \<and>
   (\<exists>w'. world_step (the (run init_world [Change ''a'', Submit])) (Arrive 0 NoReply) = Some w' \<and>
         inflight w' = [] \<and> \<not> loading (st w') \<and> mounted w' \<and> world_step w' Submit \<noteq> None)"
proof -
  have e: "run init_world [Change ''a'', Submit] = Some (the (run init_world [Change ''a'', Submit]))"
    by (simp add: run_eval)
  have r: "reach user_event (the (run init_world [Change ''a'', Submit]))"
    using run_reach [OF reach_init e] by simp
  have p: "inflight (the (run init_world [Change ''a'', Submit])) \<noteq> []"
    by (simp add: run_eval)
  obtain w' where w': "world_step (the (run init_world [Change ''a'', Submit])) (Arrive 0 NoReply) = Some w'"
    and props: "inflight w' = []" "\<not> loading (st w')"
    "mounted w' \<longrightarrow> world_step w' Submit \<noteq> None"
    using user_reply_reenables_submit [OF r p, of NoReply] by blast
  have "mounted w'" using w' by (auto simp add: run_eval)
  with w' props r p show ?thesis by blast
qed

text \<open>
  C17. Typing into the input (\<open>onChange\<close>, line 47) only replaces the query: on any
  reachable page, whatever events led there, the results, flags, pending requests and
  log are unchanged and the page stays mounted.
\<close>

theorem change_only_sets_query:
  assumes "reach ok w" and "world_step w (Change q) = Some w'"
  shows "st w' = (st w)\<lparr>query := q\<rparr> \<and> mounted w' \<and> inflight w' = inflight w \<and> console w' = console w"
proof -
  from assms(2) have m: "mounted w" and w': "w' = commit [SetQuery q] w" by (simp_all split: if_splits)
  from reach_mounted_commits [OF assms(1)] m have "commits (st w)" by simp
  with m w' show ?thesis by (simp add: commit_mounted)
qed

theorem change_only_sets_query_witness:
  "reach (\<lambda>e. True) init_world \<and>
   world_step init_world (Change ''pump'') = Some (init_world\<lparr>st := init_state\<lparr>query := ''pump''\<rparr>\<rparr>) \<and>
   st (init_world\<lparr>st := init_state\<lparr>query := ''pump''\<rparr>\<rparr>) = (st init_world)\<lparr>query := ''pump''\<rparr> \<and>
   mounted (init_world\<lparr>st := init_state\<lparr>query := ''pump''\<rparr>\<rparr>)"
proof -
  have r: "reach (\<lambda>e. True) init_world" by (rule reach_init)
  have s: "world_step init_world (Change ''pump'') = Some (init_world\<lparr>st := init_state\<lparr>query := ''pump''\<rparr>\<rparr>)"
    by (simp add: run_eval)
  show ?thesis using change_only_sets_query [OF r s] r s by blast
qed

text \<open>
  C22. On every reachable page, whatever drove it (scripted submissions and replies in
  any order included), the loading indicator is on only while a request is pending,
  an unmounted page is never left loading, and a mounted page renders without
  throwing. (The converse of the first fact fails under scripted submissions: C7.)
\<close>

theorem reach_loading_pending:
  "reach ok w \<Longrightarrow>
     (loading (st w) \<longrightarrow> inflight w \<noteq> []) \<and> (\<not> mounted w \<longrightarrow> \<not> loading (st w)) \<and>
     (mounted w \<longrightarrow> commits (st w))"
  using reach_settle_inv by (simp add: settle_inv_def)

theorem reach_loading_pending_witness:
  "reach (\<lambda>e. True) (the (run init_world [Change ''a'', ScriptSubmit])) \<and>
   loading (st (the (run init_world [Change ''a'', ScriptSubmit]))) \<and>
   inflight (the (run init_world [Change ''a'', ScriptSubmit])) \<noteq> [] \<and>
   mounted (the (run init_world [Change ''a'', ScriptSubmit]))"
proof -
  define W where "W = the (run init_world [Change ''a'', ScriptSubmit])"
  have e: "run init_world [Change ''a'', ScriptSubmit] = Some W"
    by (simp add: W_def run_eval)
  have r: "reach (\<lambda>e. True) W"
    using run_reach [OF reach_init e] by simp
  have l: "loading (st W)" and m: "mounted W" by (simp_all add: W_def run_eval)
  from reach_loading_pending [OF r] l m r show ?thesis by (simp add: W_def)
qed

end
