(* ===== verification/Spec_Model.thy ===== *)
theory Spec_Model
  imports Runtime
begin

text \<open>
  The contract the component promises (spec sections 3, 4.1 and 6), stated without the
  component's flags, and its relation to the model of the code. A view state is one of
  \<open>Idle\<close>, \<open>Loading\<close>, \<open>Success items\<close>, \<open>Failure message\<close>; a submission moves to
  \<open>Idle\<close> (blank query) or \<open>Loading\<close>, and a reply moves \<open>Loading\<close> to \<open>Success\<close> when
  its body is \<open>{contexts: [ResultItem, ...]}\<close> and to \<open>Failure\<close> otherwise. The
  rendering contract says what each view state shows. \<open>corr\<close> relates the code's four
  fields to a view state, and the theorems below show that the code implements the
  contract for every reply inside it, and where it does not.
\<close>

record result_item =
  source_title :: string
  text_snippet :: string
  source_url :: string

datatype vstate = Idle | Loading | Success "result_item list" | Failure string

datatype aevent = ASubmit bool | AOk "result_item list" | AFail

text \<open>\<open>ASubmit b\<close>: a submission whose query is blank exactly when \<open>b\<close>.\<close>

fun astep :: "vstate \<Rightarrow> aevent \<Rightarrow> vstate option" where
  "astep Loading (ASubmit b) = None"
| "astep a (ASubmit b) = Some (if b then Idle else Loading)"
| "astep Loading (AOk xs) = Some (Success xs)"
| "astep Loading AFail = Some (Failure fetch_error_msg)"
| "astep a e = None"

section \<open>The wire format of results\<close>

definition encode_item :: "result_item \<Rightarrow> jsval" where
  "encode_item it =
     JObj [(''source_title'', JStr (source_title it)), (''text_snippet'', JStr (text_snippet it)),
           (''source_url'', JStr (source_url it))]"

fun as_string :: "jsval js \<Rightarrow> string option" where
  "as_string (Inr (JStr s)) = Some s"
| "as_string _ = None"

definition decode_item :: "jsval \<Rightarrow> result_item option" where
  "decode_item v =
     (case (as_string (get_prop v ''source_title''), as_string (get_prop v ''text_snippet''),
            as_string (get_prop v ''source_url'')) of
        (Some t, Some sn, Some u) \<Rightarrow> Some \<lparr>source_title = t, text_snippet = sn, source_url = u\<rparr>
      | _ \<Rightarrow> None)"

fun decode_contexts :: "jsval \<Rightarrow> result_item list option" where
  "decode_contexts (JArr vs) = those (map decode_item vs)"
| "decode_contexts v = None"

definition decode_response :: "jsval \<Rightarrow> result_item list option" where
  "decode_response d = (case get_prop d ''contexts'' of Inr c \<Rightarrow> decode_contexts c | Inl e \<Rightarrow> None)"

definition encode_response :: "result_item list \<Rightarrow> jsval" where
  "encode_response xs = JObj [(''contexts'', JArr (map encode_item xs))]"

text \<open>How the contract classifies a reply (spec section 6 and 7): any failure is one kind.\<close>

fun spec_reply :: "http_reply \<Rightarrow> aevent" where
  "spec_reply NoReply = AFail"
| "spec_reply (Reply code b) =
     (if 200 \<le> code \<and> code < 300
      then (case b of
              JsonBody v \<Rightarrow> (case decode_response v of Some xs \<Rightarrow> AOk xs | None \<Rightarrow> AFail)
            | TextBody t \<Rightarrow> AFail)
      else AFail)"

text \<open>
  The replies on which the code keeps the contract: rejections, a \<open>null\<close> body, and
  bodies whose \<open>contexts\<close> are result items. The others are the subject of the
  theorems on malformed replies.
\<close>

fun in_contract :: "http_reply \<Rightarrow> bool" where
  "in_contract rep =
     (case axios_post rep of
        Rejected f \<Rightarrow> True
      | Fulfilled d \<Rightarrow> d = JNull \<or> decode_response d \<noteq> None)"

section \<open>The rendering contract\<close>

text \<open>One card per result item: title, snippet, and a link to the source opened in a
  new browsing context (spec section 4.1).\<close>

definition item_card :: "nat \<Rightarrow> result_item \<Rightarrow> card" where
  "item_card i it =
     \<lparr>card_key = i, card_title = JStr (source_title it), card_snippet = JStr (text_snippet it),
      card_href = JStr (source_url it), card_target = ''_blank''\<rparr>"

primrec item_cards :: "nat \<Rightarrow> result_item list \<Rightarrow> card list" where
  "item_cards i [] = []"
| "item_cards i (x # xs) = item_card i x # item_cards (Suc i) xs"

definition arender :: "string \<Rightarrow> vstate \<Rightarrow> view" where
  "arender q a =
     \<lparr>v_input = q, v_disabled = (a = Loading),
      v_label = (if a = Loading then ''Searching...'' else ''Search''),
      v_error = (case a of Failure m \<Rightarrow> Some m | _ \<Rightarrow> None),
      v_body = (case a of
                  Success xs \<Rightarrow> if xs \<noteq> [] then Cards (item_cards 0 xs) else Placeholder
                | Loading \<Rightarrow> NoBody
                | _ \<Rightarrow> Placeholder)\<rparr>"

section \<open>Correspondence between the code's state and the contract's\<close>

fun corr :: "app_state \<Rightarrow> vstate \<Rightarrow> bool" where
  "corr s Idle = (\<not> loading s \<and> error s = None \<and> results s = JArr [])"
| "corr s Loading = (loading s \<and> error s = None \<and> results s = JArr [])"
| "corr s (Success xs) = (\<not> loading s \<and> error s = None \<and> decode_contexts (results s) = Some xs)"
| "corr s (Failure m) = (\<not> loading s \<and> error s = Some m \<and> m \<noteq> [] \<and> results s = JArr [])"

definition wcorr :: "world \<Rightarrow> vstate \<Rightarrow> bool" where
  "wcorr w a \<longleftrightarrow> mounted w \<and> corr (st w) a \<and> (a = Loading \<longleftrightarrow> inflight w \<noteq> [])"

text \<open>The contract's step for an event of the page; typing does not change the view state.\<close>

fun abs_step :: "vstate \<Rightarrow> app_state \<Rightarrow> event \<Rightarrow> vstate option" where
  "abs_step a s (Change q) = Some a"
| "abs_step a s Submit = astep a (ASubmit (\<forall>c \<in> set (query s). js_ws c))"
| "abs_step a s ScriptSubmit = astep a (ASubmit (\<forall>c \<in> set (query s). js_ws c))"
| "abs_step a s (Arrive i rep) = astep a (spec_reply rep)"

section \<open>Lemmas\<close>

lemma decode_item_encode_item [simp]: "decode_item (encode_item it) = Some it"
  by (simp add: decode_item_def encode_item_def)

lemma as_string_Some_iff [simp]: "as_string r = Some s \<longleftrightarrow> r = Inr (JStr s)"
  by (cases r rule: as_string.cases) auto

lemma decode_item_Some:
  "decode_item v = Some it \<Longrightarrow> render_card i v = Inr (item_card i it)"
  by (auto simp: decode_item_def render_card_def item_card_def split: option.splits)

lemma decode_contexts_encode [simp]: "decode_contexts (JArr (map encode_item xs)) = Some xs"
  by (induction xs) simp_all

lemma those_decode_encode [simp]: "those (map (decode_item \<circ> encode_item) xs) = Some xs"
  by (induction xs) simp_all

lemma corr_query_update [simp]: "corr (s\<lparr>query := q\<rparr>) a = corr s a"
  by (cases a) simp_all

lemma those_decode_render_cards:
  "those (map decode_item ys) = Some xs \<Longrightarrow>
     render_cards i ys = Inr (item_cards i xs) \<and> length ys = length xs"
proof (induction ys arbitrary: i xs)
  case Nil
  then show ?case by simp
next
  case (Cons y ys)
  then obtain x xs' where y: "decode_item y = Some x" and ys: "those (map decode_item ys) = Some xs'"
    and xs: "xs = x # xs'"
    by (auto split: option.splits)
  from Cons.IH [OF ys, of "Suc i"] decode_item_Some [OF y, of i] xs show ?case by simp
qed

lemma decode_contexts_Some:
  "decode_contexts v = Some xs \<Longrightarrow>
     \<exists>ys. v = JArr ys \<and> length ys = length xs \<and> render_cards 0 ys = Inr (item_cards 0 xs)"
  by (cases v) (auto dest: those_decode_render_cards)

lemma item_cards_mount: "c \<in> set (item_cards i xs) \<Longrightarrow> card_mounts c"
  by (induction xs arbitrary: i) (auto simp: item_card_def card_mounts_def)

lemma corr_commits: "corr s a \<Longrightarrow> commits s"
proof (cases a)
  case (Success xs)
  assume "corr s a"
  with Success obtain ys where "results s = JArr ys" "length ys = length xs"
    "render_cards 0 ys = Inr (item_cards 0 xs)"
    using decode_contexts_Some by fastforce
  then show ?thesis
    by (auto simp: commits_def render_def render_results_def js_gt_zero_def view_mounts_def
        dest: item_cards_mount)
qed (auto simp: commits_empty_results)

lemma render_Success:
  assumes "decode_contexts (results s) = Some xs" and "\<not> loading s" and "error s = None"
  shows "render s = Inr (arender (query s) (Success xs))"
proof -
  obtain ys where r: "results s = JArr ys" "length ys = length xs"
    "render_cards 0 ys = Inr (item_cards 0 xs)"
    using decode_contexts_Some [OF assms(1)] by blast
  then show ?thesis using assms(2,3)
    by (simp add: render_def render_results_def arender_def js_gt_zero_def error_banner_def)
qed

lemma spec_reply_Rejected: "axios_post rep = Rejected f \<Longrightarrow> spec_reply rep = AFail"
  by (cases rep) (auto split: if_splits)

lemma spec_reply_Fulfilled:
  "axios_post rep = Fulfilled d \<Longrightarrow>
     spec_reply rep = (case decode_response d of Some xs \<Rightarrow> AOk xs | None \<Rightarrow> AFail)"
  by (cases rep) (auto simp: decode_response_def split: if_splits http_body.splits)

section \<open>The code implements the contract\<close>

text \<open>
  C10. In every state the code's flags relate to a view state of the contract, the
  JSX evaluates without throwing and renders exactly what the rendering contract
  prescribes for that view state: the input shows the query, the button is disabled
  and labelled ``Searching...'' exactly while loading, the banner shows the failure
  message, and one card per result item shows its title, snippet and link (opened in a
  new browsing context), in order.
\<close>

theorem render_refines_contract:
  "corr s a \<Longrightarrow> render s = Inr (arender (query s) a)"
proof (cases a)
  case (Success xs)
  assume "corr s a"
  with Success show ?thesis by (simp add: render_Success)
qed (auto simp: render_def render_results_def arender_def js_gt_zero_def error_banner_def)

theorem render_refines_contract_witness:
  "corr (init_state\<lparr>results := JArr (map encode_item [\<lparr>source_title = ''Doc A'', text_snippet = ''...'', source_url = ''http://x''\<rparr>])\<rparr>)
        (Success [\<lparr>source_title = ''Doc A'', text_snippet = ''...'', source_url = ''http://x''\<rparr>]) \<and>
   render (init_state\<lparr>results := JArr (map encode_item [\<lparr>source_title = ''Doc A'', text_snippet = ''...'', source_url = ''http://x''\<rparr>])\<rparr>)
     = Inr \<lparr>v_input = [], v_disabled = False, v_label = ''Search'', v_error = None,
            v_body = Cards [\<lparr>card_key = 0, card_title = JStr ''Doc A'', card_snippet = JStr ''...'',
                              card_href = JStr ''http://x'', card_target = ''_blank''\<rparr>]\<rparr>"
proof -
  let ?it = "\<lparr>source_title = ''Doc A'', text_snippet = ''...'', source_url = ''http://x''\<rparr>"
  have c: "corr (init_state\<lparr>results := JArr (map encode_item [?it])\<rparr>) (Success [?it])"
    by (simp add: init_state_def)
  show ?thesis
    using render_refines_contract [OF c] c
    by (simp add: init_state_def arender_def item_card_def)
qed

text \<open>
  C11. Refinement: on a page driven by its user, every step the code takes from a state
  related to a view state is matched by a step of the contract (typing by no step), and
  the states after them are related again, as long as the backend's replies are inside
  the contract (a rejection, a \<open>null\<close> body, or a body whose \<open>contexts\<close> are result
  items). The page stays mounted throughout.
\<close>

theorem page_refines_contract:
  assumes reach: "reach user_event w" and rel: "wcorr w a" and ue: "user_event e"
    and step: "world_step w e = Some w'"
    and contract: "\<forall>i rep. e = Arrive i rep \<longrightarrow> in_contract rep"
  shows "\<exists>a'. abs_step a (st w) e = Some a' \<and> wcorr w' a'"
proof -
  from rel have m: "mounted w" and c: "corr (st w) a" and l: "a = Loading \<longleftrightarrow> inflight w \<noteq> []"
    by (simp_all add: wcorr_def)
  from reach have inv: "ui_inv w" by (rule reach_user_ui_inv)
  show ?thesis
  proof (cases e)
    case (Change q)
    with step m have "w' = commit [SetQuery q] w" by simp
    with m c l corr_commits [OF c] show ?thesis
      by (simp add: Change wcorr_def commit_mounted)
  next
    case Submit
    with step m have nl: "\<not> loading (st w)" and w': "w' = do_submit w" by (auto split: if_splits)
    with c have na: "a \<noteq> Loading" by auto
    with l have none: "inflight w = []" by simp
    show ?thesis
    proof (cases "handleSubmit (st w)")
      case (Returned us)
      note h = handleSubmit_Returned_state [OF Returned]
      have "corr (apply_upds us (st w)) Idle" using h by simp
      with m none w' h na show ?thesis
        by (cases a) (auto simp: Submit Returned do_submit_def wcorr_def commit_mounted commits_empty_results)
    next
      case (Awaiting us r)
      note h = handleSubmit_Awaiting_state [OF Awaiting]
      have cl: "corr (apply_upds us (st w)) Loading" using h by simp
      with m none w' h na show ?thesis using corr_commits [OF cl]
        by (cases a) (auto simp: Submit Awaiting do_submit_def wcorr_def commit_mounted)
    qed
  next
    case ScriptSubmit
    with ue show ?thesis by simp
  next
    case (Arrive i rep)
    obtain us logged where r: "handleSubmit_resume (axios_post rep) = (us, logged)"
      by (cases "handleSubmit_resume (axios_post rep)")
    from step Arrive have i: "i < length (inflight w)" by (simp split: if_splits)
    with inv obtain x where one: "inflight w = [x]" and i0: "i = 0"
      by (cases "inflight w") (auto simp: ui_inv_def)
    with l have la: "a = Loading" by simp
    with c have fl: "error (st w) = None" "results (st w) = JArr []" by simp_all
    from step r i have w': "w' = commit us (w\<lparr>inflight := [], console := console w @ logged\<rparr>)"
      by (simp add: Arrive one i0)
    have ic: "in_contract rep" using contract Arrive by simp
    note rs = handleSubmit_resume_state [OF r, of "st w"]
    show ?thesis
    proof (cases "axios_post rep")
      case (Rejected f)
      have cf: "corr (apply_upds us (st w)) (Failure fetch_error_msg)" using rs fl Rejected by simp
      with corr_commits [OF cf] m w' la show ?thesis
        by (simp add: Arrive spec_reply_Rejected [OF Rejected] wcorr_def commit_mounted)
    next
      case (Fulfilled d)
      note sr = spec_reply_Fulfilled [OF Fulfilled]
      show ?thesis
      proof (cases "d = JNull")
        case True
        have cf: "corr (apply_upds us (st w)) (Failure fetch_error_msg)" using rs fl Fulfilled True by simp
        moreover have "decode_response d = None" using True by (simp add: decode_response_def)
        ultimately show ?thesis using corr_commits [OF cf] m w' la sr
          by (simp add: Arrive wcorr_def commit_mounted)
      next
        case False
        with ic Fulfilled obtain xs where dr: "decode_response d = Some xs" by auto
        then obtain cx where gp: "get_prop d ''contexts'' = Inr cx" and dc: "decode_contexts cx = Some xs"
          by (auto simp: decode_response_def split: sum.splits)
        have cf: "corr (apply_upds us (st w)) (Success xs)" using rs fl Fulfilled gp dc by simp
        with corr_commits [OF cf] m w' la sr dr show ?thesis
          by (simp add: Arrive wcorr_def commit_mounted)
      qed
    qed
  qed
qed

theorem page_refines_contract_witness:
  "reach user_event (the (run init_world [Change ''a'', Submit])) \<and>
   wcorr (the (run init_world [Change ''a'', Submit])) Loading \<and>
   in_contract (Reply 200 (JsonBody (encode_response [\<lparr>source_title = ''T'', text_snippet = ''S'', source_url = ''U''\<rparr>]))) \<and>
   (\<exists>w'. world_step (the (run init_world [Change ''a'', Submit]))
            (Arrive 0 (Reply 200 (JsonBody (encode_response [\<lparr>source_title = ''T'', text_snippet = ''S'', source_url = ''U''\<rparr>])))) = Some w' \<and>
         (\<exists>a'. abs_step Loading (st (the (run init_world [Change ''a'', Submit])))
                  (Arrive 0 (Reply 200 (JsonBody (encode_response [\<lparr>source_title = ''T'', text_snippet = ''S'', source_url = ''U''\<rparr>])))) = Some a' \<and>
               wcorr w' a'))"
proof -
  define W where "W = the (run init_world [Change ''a'', Submit])"
  define E where "E = Arrive 0 (Reply 200 (JsonBody (encode_response [\<lparr>source_title = ''T'', text_snippet = ''S'', source_url = ''U''\<rparr>])))"
  have e: "run init_world [Change ''a'', Submit] = Some W"
    by (simp add: W_def run_eval)
  have r: "reach user_event W"
    using run_reach [OF reach_init e] by simp
  have c: "wcorr W Loading"
    by (simp add: W_def run_eval wcorr_def)
  have ic: "in_contract (Reply 200 (JsonBody (encode_response [\<lparr>source_title = ''T'', text_snippet = ''S'', source_url = ''U''\<rparr>])))"
    by (simp add: encode_response_def decode_response_def)
  obtain w' where s: "world_step W E = Some w'"
    by (simp add: W_def E_def run_eval encode_response_def encode_item_def)
  have "\<exists>a'. abs_step Loading (st W) E = Some a' \<and> wcorr w' a'"
    using page_refines_contract [OF r c _ s] ic by (simp add: E_def)
  with r c ic s show ?thesis by (auto simp: W_def E_def)
qed

end
