(* ===== verification/Page_Invariants.thy ===== *)
theory Page_Invariants
  imports Runtime
begin

text \<open>
  Facts about every reachable page, whatever drives it (the user, a script, replies in
  any order): the shape of the state the code can produce, and how fast the pending
  requests and the console log can grow along a run.
\<close>

section \<open>Well-formed states\<close>

text \<open>
  The error is \<open>null\<close> or the one fixed message; while loading, the results and the
  error are the ones line 15--16 set; every pending request is the handler's POST for
  a query with a non-whitespace character.
\<close>

definition state_wf :: "world \<Rightarrow> bool" where
  "state_wf w \<longleftrightarrow>
     (error (st w) = None \<or> error (st w) = Some fetch_error_msg) \<and>
     (loading (st w) \<longrightarrow> results (st w) = JArr [] \<and> error (st w) = None) \<and>
     (\<forall>r \<in> set (inflight w). \<exists>q. r = ask_request q \<and> (\<exists>c \<in> set q. \<not> js_ws c))"

fun is_submission :: "event \<Rightarrow> bool" where
  "is_submission Submit = True"
| "is_submission ScriptSubmit = True"
| "is_submission _ = False"

text \<open>
  What the diagnostic channel of spec section 7 receives for an event: for a reply,
  the rejection, or the \<open>TypeError\<close> of reading \<open>contexts\<close> from a body that is
  \<open>null\<close>; nothing for any other event.
\<close>

fun event_log :: "event \<Rightarrow> js_exc list" where
  "event_log (Arrive i rep) =
     (case axios_post rep of
        Rejected f \<Rightarrow> [AxiosError f]
      | Fulfilled d \<Rightarrow> (case get_prop d ''contexts'' of Inl e \<Rightarrow> [e] | Inr _ \<Rightarrow> []))"
| "event_log _ = []"

section \<open>Lemmas\<close>

lemma st_commit: "st (commit us w) = (if mounted w then apply_upds us (st w) else st w)"
  by (simp add: commit_def Let_def)

lemma state_wf_init: "state_wf init_world"
  by (simp add: state_wf_def init_world_def init_state_def)

lemma state_wf_do_submit: "state_wf w \<Longrightarrow> state_wf (do_submit w)"
proof (cases "handleSubmit (st w)")
  case (Returned us)
  assume "state_wf w"
  with handleSubmit_Returned_state [OF Returned] show ?thesis
    by (simp add: do_submit_def Returned state_wf_def st_commit)
next
  case (Awaiting us r)
  assume "state_wf w"
  with handleSubmit_Awaiting_state [OF Awaiting] show ?thesis
    by (auto simp: do_submit_def Awaiting state_wf_def st_commit)
qed

lemma state_wf_resume:
  assumes "state_wf w" and "handleSubmit_resume a = (us, logged)"
  shows "state_wf (commit us (w\<lparr>inflight := remove_nth i (inflight w), console := console w @ logged\<rparr>))"
proof -
  have sub: "set (remove_nth i (inflight w)) \<subseteq> set (inflight w)" by (rule set_remove_nth_subset)
  have e: "error (apply_upds us (st w)) = error (st w) \<or> error (apply_upds us (st w)) = Some fetch_error_msg"
    and l: "\<not> loading (apply_upds us (st w))"
    using handleSubmit_resume_state [OF assms(2), of "st w"]
    by (auto split: axios_result.splits sum.splits)
  from assms(1) have "error (st w) = None \<or> error (st w) = Some fetch_error_msg"
    by (simp add: state_wf_def)
  with e have "error (apply_upds us (st w)) = None \<or> error (apply_upds us (st w)) = Some fetch_error_msg"
    by auto
  with assms(1) sub l show ?thesis
    by (auto simp: state_wf_def st_commit)
qed

lemma state_wf_step: "state_wf w \<Longrightarrow> world_step w e = Some w' \<Longrightarrow> state_wf w'"
proof (cases e)
  case (Arrive i rep)
  assume wf: "state_wf w" and step: "world_step w e = Some w'"
  obtain us logged where r: "handleSubmit_resume (axios_post rep) = (us, logged)"
    by (cases "handleSubmit_resume (axios_post rep)")
  from step r have "w' = commit us (w\<lparr>inflight := remove_nth i (inflight w), console := console w @ logged\<rparr>)"
    by (simp add: Arrive split: if_splits)
  with state_wf_resume [OF wf r] show ?thesis by simp
next
  case (Change q)
  assume "state_wf w" and "world_step w e = Some w'"
  then show ?thesis by (auto simp: Change state_wf_def st_commit split: if_splits)
next
  case Submit
  assume "state_wf w" and "world_step w e = Some w'"
  then show ?thesis by (auto simp: Submit split: if_splits intro: state_wf_do_submit)
next
  case ScriptSubmit
  assume "state_wf w" and "world_step w e = Some w'"
  then show ?thesis by (auto simp: ScriptSubmit split: if_splits intro: state_wf_do_submit)
qed

lemma state_wf_reach: "reach ok w \<Longrightarrow> state_wf w"
  by (induction rule: reach.induct) (auto intro: state_wf_init state_wf_step)

lemma step_console:
  assumes "world_step w e = Some w'"
  shows "console w' = console w @ event_log e"
proof (cases e)
  case (Arrive i rep)
  then show ?thesis
    using assms by (cases "axios_post rep") (auto split: if_splits sum.splits)
qed (use assms in \<open>auto simp: do_submit_def split: if_splits submit_outcome.splits\<close>)

section \<open>Properties\<close>

text \<open>
  C18. Every reachable page, whatever events drove it (scripted submissions and
  replies in any order included), is well formed: the error is \<open>null\<close> or the one
  fixed message, a loading view has no results and no error, and every pending
  request is the handler's POST to \<open>/ask\<close> for a query with a non-whitespace
  character.
\<close>

theorem reach_state_wf:
  "reach ok w \<Longrightarrow>
     (error (st w) = None \<or> error (st w) = Some fetch_error_msg) \<and>
     (loading (st w) \<longrightarrow> results (st w) = JArr [] \<and> error (st w) = None) \<and>
     (\<forall>r \<in> set (inflight w). \<exists>q. r = ask_request q \<and> (\<exists>c \<in> set q. \<not> js_ws c))"
  using state_wf_reach by (simp add: state_wf_def)

theorem reach_state_wf_witness:
  "reach (\<lambda>e. True) (the (run init_world [Change ''a'', ScriptSubmit, ScriptSubmit])) \<and>
   error (st (the (run init_world [Change ''a'', ScriptSubmit, ScriptSubmit]))) = None \<and>
   loading (st (the (run init_world [Change ''a'', ScriptSubmit, ScriptSubmit]))) \<and>
   results (st (the (run init_world [Change ''a'', ScriptSubmit, ScriptSubmit]))) = JArr [] \<and>
   inflight (the (run init_world [Change ''a'', ScriptSubmit, ScriptSubmit])) = [ask_request ''a'', ask_request ''a'']"
proof -
  define W where "W = the (run init_world [Change ''a'', ScriptSubmit, ScriptSubmit])"
  have e: "run init_world [Change ''a'', ScriptSubmit, ScriptSubmit] = Some W"
    by (simp add: W_def run_eval)
  have r: "reach (\<lambda>e. True) W"
    using run_reach [OF reach_init e] by simp
  have c: "loading (st W)" "inflight W = [ask_request ''a'', ask_request ''a'']"
    by (simp_all add: W_def run_eval)
  from reach_state_wf [OF r] c have "error (st W) = None \<and> results (st W) = JArr []" by simp
  with r c show ?thesis unfolding W_def by blast
qed

text \<open>
  C20. The console log is the trace of failures: along any run, \<open>console.error\<close>
  receives exactly one entry per reply that is rejected or has a \<open>null\<close> body, that
  reply's exception, in the order the replies arrive (not the order of the requests),
  also after the page has unmounted; typing and submitting log nothing.
\<close>

theorem run_console_trace:
  "run w es = Some w' \<Longrightarrow> console w' = console w @ concat (map event_log es)"
proof (induction es arbitrary: w)
  case (Cons e es)
  then obtain w1 where s: "world_step w e = Some w1" and r: "run w1 es = Some w'"
    by (auto split: option.splits)
  from Cons.IH [OF r] step_console [OF s] show ?case by simp
qed simp

theorem run_console_trace_witness:
  "run init_world [Change ''a'', ScriptSubmit, ScriptSubmit, Arrive 1 (Reply 500 (TextBody ''x'')), Arrive 0 NoReply]
     = Some (the (run init_world [Change ''a'', ScriptSubmit, ScriptSubmit, Arrive 1 (Reply 500 (TextBody ''x'')), Arrive 0 NoReply])) \<and>
   console (the (run init_world [Change ''a'', ScriptSubmit, ScriptSubmit, Arrive 1 (Reply 500 (TextBody ''x'')), Arrive 0 NoReply]))
     = [AxiosError (BadStatus 500), AxiosError NetworkError]"
proof -
  define W where "W = the (run init_world [Change ''a'', ScriptSubmit, ScriptSubmit, Arrive 1 (Reply 500 (TextBody ''x'')), Arrive 0 NoReply])"
  have e: "run init_world [Change ''a'', ScriptSubmit, ScriptSubmit, Arrive 1 (Reply 500 (TextBody ''x'')), Arrive 0 NoReply] = Some W"
    by (simp add: W_def run_eval)
  from run_console_trace [OF e] have "console W = [AxiosError (BadStatus 500), AxiosError NetworkError]"
    by (simp add: init_world_def)
  with e show ?thesis unfolding W_def by simp
qed

end
