(* ===== verification/Commit_Policies.thy ===== *)
theory Commit_Policies
  imports Runtime
begin

text \<open>
  The repository does not pin a React version. React 18 batches every state update;
  React 17 and earlier batch only inside React's own event handlers, so after the
  \<open>await\<close> of line 23 each setter call of lines 29--34 renders and commits at once,
  before the setter returns. When that render fails, React 17 unmounts the root and
  rethrows the error out of the setter call, into the \<open>try\<close> of lines 22--30: the
  \<open>catch\<close> of lines 30--32 handles it (its \<open>setError\<close> is a no-op on the unmounted
  page, its \<open>console.error\<close> logs the render's error) and the \<open>finally\<close> runs.
  This theory models that policy (\<open>set17\<close>, \<open>catch17\<close>, \<open>finally17\<close>,
  \<open>handleSubmit_resume17\<close>, \<open>world_step17\<close>, \<open>run17\<close>) and compares it with React 18.
\<close>

section \<open>React 17: one commit per setter call after the await\<close>

text \<open>
  The exception a failed commit raises: the JSX's own exception, or the error React
  DOM raises on the tree (an object as a child; the \<open>TypeError\<close> of an \<open>href\<close> that
  does not convert is also reported as \<open>ReactError\<close>, since which of two such
  errors comes first depends on React's traversal order, not modelled here).
\<close>

definition render_exc :: "app_state \<Rightarrow> js_exc" where
  "render_exc s = (case render s of Inl e \<Rightarrow> e | Inr v \<Rightarrow> ReactError)"

text \<open>
  A setter call outside a batch: the update is applied and committed at once; a
  failed commit unmounts the page and the setter call throws. On an unmounted page
  the call does nothing.
\<close>

definition set17 :: "upd \<Rightarrow> world \<Rightarrow> world \<times> js_exc option" where
  "set17 u w =
     (if mounted w then
        (let s' = apply_upd (st w) u in
         if commits s' then (w\<lparr>st := s'\<rparr>, None)
         else (w\<lparr>st := s', mounted := False\<rparr>, Some (render_exc s')))
      else (w, None))"

text \<open>
  Lines 31--32: if \<open>setError\<close> throws, \<open>console.error\<close> is not reached and the
  exception leaves the handler (an unhandled rejection, not logged by the handler).
\<close>

definition catch17 :: "js_exc \<Rightarrow> world \<Rightarrow> world" where
  "catch17 e w =
     (case set17 (SetError (Some fetch_error_msg)) w of
        (w1, None) \<Rightarrow> w1\<lparr>console := console w1 @ [e]\<rparr>
      | (w1, Some e') \<Rightarrow> w1)"

text \<open>Line 34; an exception of \<open>setLoading\<close> leaves the handler.\<close>

definition finally17 :: "world \<Rightarrow> world" where
  "finally17 w = fst (set17 (SetLoading False) w)"

text \<open>Lines 28--35 under React 17, after the promise of line 23 settles.\<close>

fun handleSubmit_resume17 :: "axios_result \<Rightarrow> world \<Rightarrow> world" where
  "handleSubmit_resume17 (Fulfilled data) w =
     (case get_prop data ''contexts'' of
        Inr ctx \<Rightarrow>
          (case set17 (SetResults ctx) w of
             (w1, None) \<Rightarrow> finally17 w1
           | (w1, Some e) \<Rightarrow> finally17 (catch17 e w1))
      | Inl exc \<Rightarrow> finally17 (catch17 exc w))"
| "handleSubmit_resume17 (Rejected f) w = finally17 (catch17 (AxiosError f) w)"

text \<open>
  The events React dispatches itself (typing, the form's submit) are batched by
  React 17 as well; only the continuation after the \<open>await\<close> differs.
\<close>

fun world_step17 :: "world \<Rightarrow> event \<Rightarrow> world option" where
  "world_step17 w (Arrive i rep) =
     (if i < length (inflight w)
      then Some (handleSubmit_resume17 (axios_post rep) (w\<lparr>inflight := remove_nth i (inflight w)\<rparr>))
      else None)"
| "world_step17 w e = world_step w e"

fun run17 :: "world \<Rightarrow> event list \<Rightarrow> world option" where
  "run17 w [] = Some w"
| "run17 w (e # es) = (case world_step17 w e of None \<Rightarrow> None | Some w' \<Rightarrow> run17 w' es)"

text \<open>
  How a React 18 world \<open>w1\<close> and a React 17 world \<open>w2\<close> correspond: the same page
  while mounted (and it commits); once unmounted, the same pending requests and the
  same log except for one entry, the exception of the render that failed, which only
  React 17 logs.
\<close>

definition screen17 :: "world \<Rightarrow> world \<Rightarrow> bool" where
  "screen17 w1 w2 \<longleftrightarrow>
     mounted w1 = mounted w2 \<and> inflight w1 = inflight w2 \<and>
     (if mounted w1 then st w1 = st w2 \<and> console w2 = console w1 \<and> commits (st w1)
      else \<exists>xs ys s. \<not> commits s \<and> console w1 = xs @ ys \<and> console w2 = xs @ render_exc s # ys)"

section \<open>Lemmas\<close>

lemma view_mounts_body: "v_body v = v_body v' \<Longrightarrow> view_mounts v = view_mounts v'"
  by (simp add: view_mounts_def)

lemma commits_alt:
  "commits s \<longleftrightarrow>
     (case render_results s of Inr (Cards cs) \<Rightarrow> (\<forall>c \<in> set cs. card_mounts c) | Inr _ \<Rightarrow> True | Inl e \<Rightarrow> False)"
  by (cases "render_results s") (auto simp: commits_def render_def view_mounts_def split: body.splits)

lemma commits_loading_update [simp]: "commits (s\<lparr>loading := b\<rparr>) = commits s"
  by (simp add: commits_alt render_results_def sum_bind_case split: sum.splits)

lemma commits_error_update [simp]: "commits (s\<lparr>error := e\<rparr>) = commits s"
  by (simp add: commits_alt render_results_def cong: if_cong)

lemma set17_unmounted [simp]: "\<not> mounted w \<Longrightarrow> set17 u w = (w, None)"
  by (simp add: set17_def)

lemma resume17_unmounted:
  "\<not> mounted w \<Longrightarrow> handleSubmit_resume17 a w = w\<lparr>console := console w @ snd (handleSubmit_resume a)\<rparr>"
  by (cases a) (auto simp: catch17_def finally17_def split: sum.splits)

text \<open>
  One reply on a mounted page that commits: React 17 ends where React 18 does, except
  that a failed render of \<open>setResults\<close> is caught and logged.
\<close>

lemma resume17_mounted:
  assumes m: "mounted w" and c: "commits (st w)" and r: "handleSubmit_resume a = (us, logged)"
  shows "screen17 (commit us (w\<lparr>console := console w @ logged\<rparr>)) (handleSubmit_resume17 a w)"
proof (cases a)
  case (Fulfilled d)
  show ?thesis
  proof (cases "get_prop d ''contexts''")
    case (Inr ctx)
    let ?s1 = "(st w)\<lparr>results := ctx\<rparr>"
    show ?thesis
    proof (cases "commits ?s1")
      case True
      with m r Fulfilled Inr show ?thesis
        by (auto simp: screen17_def commit_def set17_def finally17_def Let_def)
    next
      case False
      from r Fulfilled Inr have u: "us = [SetResults ctx, SetLoading False]" "logged = []" by auto
      have "\<exists>xs ys s. \<not> commits s \<and> console w = xs @ ys \<and> console w @ [render_exc ?s1] = xs @ render_exc s # ys"
        using False by (intro exI [of _ "console w"] exI [of _ "[]"] exI [of _ ?s1]) simp
      with m False u Fulfilled Inr show ?thesis
        by (simp add: screen17_def commit_def set17_def finally17_def catch17_def Let_def)
    qed
  next
    case (Inl exc)
    with m c r Fulfilled show ?thesis
      by (auto simp: screen17_def commit_def set17_def finally17_def catch17_def Let_def)
  qed
next
  case (Rejected f)
  with m c r show ?thesis
    by (auto simp: screen17_def commit_def set17_def finally17_def catch17_def Let_def)
qed

text \<open>Typing and submitting never unmount a page that commits.\<close>

lemma do_submit_mounted: "mounted w \<Longrightarrow> mounted (do_submit w)"
  using commit_empty_results [OF _ handleSubmit_results]
  by (auto simp: do_submit_def split: submit_outcome.splits)

lemma step_keeps_mounted:
  assumes "mounted w" and "commits (st w)" and "world_step w e = Some w'" and "\<forall>i rep. e \<noteq> Arrive i rep"
  shows "mounted w'"
proof (cases e)
  case (Change q)
  with assms show ?thesis by (auto simp: commit_mounted split: if_splits)
next
  case Submit
  with assms show ?thesis by (auto intro: do_submit_mounted split: if_splits)
next
  case ScriptSubmit
  with assms show ?thesis by (auto intro: do_submit_mounted split: if_splits)
qed (use assms in simp)

lemma screen17_init: "screen17 init_world init_world"
  by (simp add: screen17_def init_world_def init_state_def commits_empty_results)

lemma step17_sim:
  assumes rel: "screen17 w1 w2" and step: "world_step w1 e = Some w1'"
  shows "\<exists>w2'. world_step17 w2 e = Some w2' \<and> screen17 w1' w2'"
proof (cases "mounted w1")
  case True
  with rel have eq: "w2 = w1" and c: "commits (st w1)"
    by (cases w1, cases w2, simp add: screen17_def)+
  show ?thesis
  proof (cases e)
    case (Arrive i rep)
    obtain us logged where r: "handleSubmit_resume (axios_post rep) = (us, logged)"
      by (cases "handleSubmit_resume (axios_post rep)")
    let ?w = "w1\<lparr>inflight := remove_nth i (inflight w1)\<rparr>"
    have "screen17 (commit us (?w\<lparr>console := console ?w @ logged\<rparr>)) (handleSubmit_resume17 (axios_post rep) ?w)"
      using True c by (intro resume17_mounted [OF _ _ r]) simp_all
    with step eq r show ?thesis by (auto simp: Arrive split: if_splits)
  next
    case (Change q)
    then have "mounted w1'" and "commits (st w1')"
      using step_keeps_mounted [OF True c step] mounted_commits_step [OF _ step] c by auto
    with step eq Change show ?thesis by (simp add: screen17_def)
  next
    case Submit
    then have "mounted w1'" and "commits (st w1')"
      using step_keeps_mounted [OF True c step] mounted_commits_step [OF _ step] c by auto
    with step eq Submit show ?thesis by (simp add: screen17_def)
  next
    case ScriptSubmit
    then have "mounted w1'" and "commits (st w1')"
      using step_keeps_mounted [OF True c step] mounted_commits_step [OF _ step] c by auto
    with step eq ScriptSubmit show ?thesis by (simp add: screen17_def)
  qed
next
  case False
  with rel have m2: "\<not> mounted w2" and i: "inflight w2 = inflight w1"
    and ex: "\<exists>xs ys s. \<not> commits s \<and> console w1 = xs @ ys \<and> console w2 = xs @ render_exc s # ys"
    by (simp_all add: screen17_def)
  show ?thesis
  proof (cases e)
    case (Arrive i rep)
    obtain us logged where r: "handleSubmit_resume (axios_post rep) = (us, logged)"
      by (cases "handleSubmit_resume (axios_post rep)")
    from ex obtain xs ys s where "\<not> commits s" "console w1 = xs @ ys" "console w2 = xs @ render_exc s # ys"
      by blast
    then have "\<exists>xs ys s. \<not> commits s \<and> console w1 @ logged = xs @ ys \<and> console w2 @ logged = xs @ render_exc s # ys"
      by (intro exI [of _ xs] exI [of _ "ys @ logged"] exI [of _ s]) simp
    moreover from step Arrive r False have "w1' = w1\<lparr>inflight := remove_nth i (inflight w1), console := console w1 @ logged\<rparr>"
      and "i < length (inflight w1)"
      by (simp_all split: if_splits)
    ultimately show ?thesis using False m2 i r
      by (simp add: Arrive screen17_def resume17_unmounted)
  qed (use step False in \<open>simp_all split: if_splits\<close>)
qed

lemma step17_enabled: "screen17 w1 w2 \<Longrightarrow> world_step w1 e = None \<longleftrightarrow> world_step17 w2 e = None"
proof (cases e)
  case Submit
  assume "screen17 w1 w2"
  then show ?thesis
    by (cases "mounted w1") (auto simp: Submit screen17_def)
qed (auto simp: screen17_def split: prod.splits)

lemma run17_screen:
  "screen17 w1 w2 \<Longrightarrow>
     (run w1 es = None \<longleftrightarrow> run17 w2 es = None) \<and>
     (\<forall>w1' w2'. run w1 es = Some w1' \<longrightarrow> run17 w2 es = Some w2' \<longrightarrow> screen17 w1' w2')"
proof (induction es arbitrary: w1 w2)
  case Nil
  then show ?case by simp
next
  case (Cons e es)
  show ?case
  proof (cases "world_step w1 e")
    case None
    with step17_enabled [OF Cons.prems, of e] show ?thesis by simp
  next
    case (Some w1')
    with step17_sim [OF Cons.prems] obtain w2' where
      s2: "world_step17 w2 e = Some w2'" and ss: "screen17 w1' w2'" by blast
    from Cons.IH [OF ss] Some s2 show ?thesis by simp
  qed
qed

section \<open>Properties\<close>

text \<open>
  C19. The two React commit policies compared, from the page as it first mounts: a
  sequence of events is possible under React 18's batching exactly when it is possible
  under React 17's one commit per setter call after the \<open>await\<close>; both end with
  the page mounted or both unmounted, with the same pending requests; while mounted
  they show the same state and have logged the same exceptions; once unmounted,
  React 17 has logged exactly one exception more, the one of the render that failed
  (rethrown from \<open>setResults\<close> into the \<open>catch\<close> of line 30 and logged at line 32),
  at the point where it happened.
\<close>

theorem react17_react18_same_screen:
  "(run init_world es = None \<longleftrightarrow> run17 init_world es = None) \<and>
   (\<forall>w1 w2. run init_world es = Some w1 \<longrightarrow> run17 init_world es = Some w2 \<longrightarrow>
      mounted w1 = mounted w2 \<and> inflight w1 = inflight w2 \<and>
      (if mounted w1 then st w1 = st w2 \<and> console w2 = console w1
       else \<exists>xs ys s. \<not> commits s \<and> console w1 = xs @ ys \<and> console w2 = xs @ render_exc s # ys))"
proof -
  have r: "(run init_world es = None \<longleftrightarrow> run17 init_world es = None) \<and>
     (\<forall>w1 w2. run init_world es = Some w1 \<longrightarrow> run17 init_world es = Some w2 \<longrightarrow> screen17 w1 w2)"
    by (rule run17_screen [OF screen17_init])
  show ?thesis
  proof (rule conjI)
    show "run init_world es = None \<longleftrightarrow> run17 init_world es = None" using r by (rule conjunct1)
  next
    show "\<forall>w1 w2. run init_world es = Some w1 \<longrightarrow> run17 init_world es = Some w2 \<longrightarrow>
      mounted w1 = mounted w2 \<and> inflight w1 = inflight w2 \<and>
      (if mounted w1 then st w1 = st w2 \<and> console w2 = console w1
       else \<exists>xs ys s. \<not> commits s \<and> console w1 = xs @ ys \<and> console w2 = xs @ render_exc s # ys)"
    proof (intro allI impI)
      fix w1 w2
      assume "run init_world es = Some w1" and "run17 init_world es = Some w2"
      with r have "screen17 w1 w2" by blast
      then show "mounted w1 = mounted w2 \<and> inflight w1 = inflight w2 \<and>
        (if mounted w1 then st w1 = st w2 \<and> console w2 = console w1
         else \<exists>xs ys s. \<not> commits s \<and> console w1 = xs @ ys \<and> console w2 = xs @ render_exc s # ys)"
        unfolding screen17_def by (simp only: if_bool_eq_conj) blast
    qed
  qed
qed

theorem react17_react18_same_screen_witness:
  "run init_world [Change ''a'', Submit, Arrive 0 (Reply 200 (TextBody ''oops''))]
     = Some (the (run init_world [Change ''a'', Submit, Arrive 0 (Reply 200 (TextBody ''oops''))])) \<and>
   run17 init_world [Change ''a'', Submit, Arrive 0 (Reply 200 (TextBody ''oops''))]
     = Some (the (run17 init_world [Change ''a'', Submit, Arrive 0 (Reply 200 (TextBody ''oops''))])) \<and>
   \<not> mounted (the (run init_world [Change ''a'', Submit, Arrive 0 (Reply 200 (TextBody ''oops''))])) \<and>
   \<not> mounted (the (run17 init_world [Change ''a'', Submit, Arrive 0 (Reply 200 (TextBody ''oops''))])) \<and>
   console (the (run init_world [Change ''a'', Submit, Arrive 0 (Reply 200 (TextBody ''oops''))])) = [] \<and>
   console (the (run17 init_world [Change ''a'', Submit, Arrive 0 (Reply 200 (TextBody ''oops''))])) = [TypeError]"
proof -
  let ?es = "[Change ''a'', Submit, Arrive 0 (Reply 200 (TextBody ''oops''))]"
  define W1 where "W1 = the (run init_world ?es)"
  define W2 where "W2 = the (run17 init_world ?es)"
  have e1: "run init_world ?es = Some W1" by (simp add: W1_def run_eval)
  have e2: "run17 init_world ?es = Some W2" by (simp add: W2_def run_eval)
  have m: "\<not> mounted W1" and c1: "console W1 = []" by (simp_all add: W1_def run_eval)
  have c2: "console W2 = [TypeError]"
    by (simp add: W2_def run_eval set17_def catch17_def finally17_def render_exc_def)
  have "mounted W1 = mounted W2"
    using react17_react18_same_screen [of ?es] e1 e2 by blast
  with e1 e2 m c1 c2 show ?thesis unfolding W1_def W2_def by simp
qed

end
