(* ===== verification/Json_Wire.thy ===== *)
theory Json_Wire
  imports Handle_Submit
begin

text \<open>
  The request body on the wire. \<open>axios.post(url, data)\<close> (App.js lines 23--27) sends a
  plain object as JSON: its default \<open>transformRequest\<close> applies \<open>JSON.stringify\<close>.
  \<open>json_stringify\<close> models \<open>JSON.stringify\<close> on the values of \<open>jsval\<close> (ECMAScript
  SerializeJSONProperty, QuoteJSONString): members whose value is \<open>undefined\<close> are
  left out, \<open>undefined\<close> array elements become \<open>null\<close>, an object lists its
  array-index keys in ascending order before its other keys (OrdinaryOwnPropertyKeys),
  a repeated key of the parsed object appears once with its last value.
  \<open>json_parse\<close> is the reader on the backend's side (RFC 8259 grammar) for
  the values of this model: numbers are integers (a fraction or exponent is rejected) and a
  \<open>\u\<close> escape must denote a code unit below 256. It recurses with fuel; the
  termination theorem says how much fuel is enough.
\<close>

section \<open>Serialisation\<close>

definition hex_char :: "nat \<Rightarrow> char" where
  "hex_char d = (if d < 10 then char_of (48 + d) else char_of (87 + d))"

text \<open>QuoteJSONString: the two-character escapes, \<open>\u00xx\<close> (lower case) for other control characters.\<close>

definition json_escape :: "char \<Rightarrow> string" where
  "json_escape c =
     (let n = (of_char c :: nat) in
      if n = 34 then [CHR 0x5C, CHR 0x22]
      else if n = 92 then [CHR 0x5C, CHR 0x5C]
      else if n = 8 then [CHR 0x5C, CHR ''b'']
      else if n = 12 then [CHR 0x5C, CHR ''f'']
      else if n = 10 then [CHR 0x5C, CHR ''n'']
      else if n = 13 then [CHR 0x5C, CHR ''r'']
      else if n = 9 then [CHR 0x5C, CHR ''t'']
      else if n < 32 then [CHR 0x5C, CHR ''u'', CHR ''0'', CHR ''0'', hex_char (n div 16), hex_char (n mod 16)]
      else [c])"

definition json_quote :: "string \<Rightarrow> string" where
  "json_quote s = CHR 0x22 # concat (map json_escape s) @ [CHR 0x22]"

definition prop_lookup :: "(string \<times> jsval) list \<Rightarrow> string \<Rightarrow> jsval" where
  "prop_lookup kvs k = (case map_of (rev kvs) k of Some v \<Rightarrow> v | None \<Rightarrow> JUndef)"

text \<open>The own keys of the object a key/value list denotes, in enumeration order.\<close>

definition key_order :: "string list \<Rightarrow> string list" where
  "key_order ks =
     (let ks' = remdups ks in
      sort_key dec_value (filter (\<lambda>k. array_index k \<noteq> None) ks') @
      filter (\<lambda>k. array_index k = None) ks')"

definition obj_members :: "(string \<times> jsval) list \<Rightarrow> (string \<times> jsval) list" where
  "obj_members kvs =
     filter (\<lambda>(k, v). v \<noteq> JUndef) (map (\<lambda>k. (k, prop_lookup kvs k)) (key_order (map fst kvs)))"

function json_ser :: "jsval \<Rightarrow> string" where
  "json_ser JUndef = ''null''"
| "json_ser JNull = ''null''"
| "json_ser (JBool b) = (if b then ''true'' else ''false'')"
| "json_ser (JNum n) = int_to_dec n"
| "json_ser (JStr s) = json_quote s"
| "json_ser (JArr xs) = ''['' @ join_with '','' (map json_ser xs) @ '']''"
| "json_ser (JObj kvs) =
     ''{'' @ join_with '','' (map (\<lambda>(k, v). json_quote k @ '':'' @ json_ser v) (obj_members kvs)) @ ''}''"
  by pat_completeness auto
termination
proof (relation "measure size", simp_all)
  fix xs :: "jsval list" and x
  assume "x \<in> set xs"
  then show "size x < Suc (size_list size xs)"
    by (simp add: le_imp_less_Suc size_list_estimation')
next
  fix kvs :: "(string \<times> jsval) list" and kv k v
  assume "kv \<in> set (obj_members kvs)" and "(k, v) = kv"
  then have "(k, v) \<in> set kvs"
    by (auto simp: obj_members_def prop_lookup_def split: option.splits dest!: map_of_SomeD)
  then show "size v < Suc (size_list (size_prod (\<lambda>x. 0) size) kvs)"
    by (auto intro!: le_imp_less_Suc size_list_estimation')
qed

definition json_stringify :: "jsval \<Rightarrow> string option" where
  "json_stringify v = (if v = JUndef then None else Some (json_ser v))"

text \<open>The value the text of \<open>json_ser\<close> denotes: \<open>undefined\<close> becomes \<open>null\<close> in an
  array, an object keeps the members \<open>obj_members\<close> lists.\<close>

function wire_norm :: "jsval \<Rightarrow> jsval" where
  "wire_norm JUndef = JNull"
| "wire_norm JNull = JNull"
| "wire_norm (JBool b) = JBool b"
| "wire_norm (JNum n) = JNum n"
| "wire_norm (JStr s) = JStr s"
| "wire_norm (JArr xs) = JArr (map wire_norm xs)"
| "wire_norm (JObj kvs) = JObj (map (\<lambda>(k, v). (k, wire_norm v)) (obj_members kvs))"
  by pat_completeness auto
termination
proof (relation "measure size", simp_all)
  fix xs :: "jsval list" and x
  assume "x \<in> set xs"
  then show "size x < Suc (size_list size xs)"
    by (simp add: le_imp_less_Suc size_list_estimation')
next
  fix kvs :: "(string \<times> jsval) list" and kv k v
  assume "kv \<in> set (obj_members kvs)" and "(k, v) = kv"
  then have "(k, v) \<in> set kvs"
    by (auto simp: obj_members_def prop_lookup_def split: option.splits dest!: map_of_SomeD)
  then show "size v < Suc (size_list (size_prod (\<lambda>x. 0) size) kvs)"
    by (auto intro!: le_imp_less_Suc size_list_estimation')
qed

section \<open>Reading JSON text\<close>

definition json_ws :: "char \<Rightarrow> bool" where
  "json_ws c \<longleftrightarrow> (of_char c :: nat) \<in> {9, 10, 13, 32}"

definition skip_ws :: "string \<Rightarrow> string" where
  "skip_ws s = dropWhile json_ws s"

definition hex_value :: "char \<Rightarrow> nat option" where
  "hex_value c =
     (let n = (of_char c :: nat) in
      if 48 \<le> n \<and> n \<le> 57 then Some (n - 48)
      else if 97 \<le> n \<and> n \<le> 102 then Some (n - 87)
      else if 65 \<le> n \<and> n \<le> 70 then Some (n - 55)
      else None)"

definition hex4 :: "char \<Rightarrow> char \<Rightarrow> char \<Rightarrow> char \<Rightarrow> nat option" where
  "hex4 a b c d =
     (case (hex_value a, hex_value b, hex_value c, hex_value d) of
        (Some w, Some x, Some y, Some z) \<Rightarrow> Some (((w * 16 + x) * 16 + y) * 16 + z)
      | _ \<Rightarrow> None)"

definition simple_escape :: "char \<Rightarrow> char option" where
  "simple_escape e =
     (let n = (of_char e :: nat) in
      if n = 34 \<or> n = 92 \<or> n = 47 then Some e
      else if e = CHR ''b'' then Some (CHR 0x08)
      else if e = CHR ''f'' then Some (CHR 0x0C)
      else if e = CHR ''n'' then Some (CHR 0x0A)
      else if e = CHR ''r'' then Some (CHR 0x0D)
      else if e = CHR ''t'' then Some (CHR 0x09)
      else None)"

definition str_cons :: "char \<Rightarrow> (string \<times> string) option \<Rightarrow> (string \<times> string) option" where
  "str_cons c r = map_option (\<lambda>(t, rest). (c # t, rest)) r"

text \<open>The characters of a string literal after its opening quote, up to the closing one.\<close>

fun parse_str :: "string \<Rightarrow> (string \<times> string) option" where
  "parse_str [] = None"
| "parse_str (c # r) =
     (if c = CHR 0x22 then Some ([], r)
      else if c = CHR 0x5C then
        (case r of
           [] \<Rightarrow> None
         | e # r' \<Rightarrow>
             if e = CHR ''u'' then
               (case r' of
                  a # b # x # d # r'' \<Rightarrow>
                    (case hex4 a b x d of
                       Some n \<Rightarrow> if n < 256 then str_cons (char_of n) (parse_str r'') else None
                     | None \<Rightarrow> None)
                | _ \<Rightarrow> None)
             else (case simple_escape e of Some d \<Rightarrow> str_cons d (parse_str r') | None \<Rightarrow> None))
      else if (of_char c :: nat) < 32 then None
      else str_cons c (parse_str r))"

definition parse_num :: "string \<Rightarrow> (jsval \<times> string) option" where
  "parse_num s =
     (let neg = (s \<noteq> [] \<and> hd s = CHR ''-''); t = (if neg then tl s else s);
          ds = takeWhile is_digit t; rest = dropWhile is_digit t in
      if ds = [] \<or> (hd ds = CHR ''0'' \<and> tl ds \<noteq> []) \<or>
         (rest \<noteq> [] \<and> hd rest \<in> {CHR ''.'', CHR ''e'', CHR ''E''})
      then None
      else Some (JNum (if neg then - int (dec_value ds) else int (dec_value ds)), rest))"

datatype 'a pres = Ok 'a string | Fail | NoFuel

definition opt_pres :: "('a \<times> string) option \<Rightarrow> 'a pres" where
  "opt_pres r = (case r of Some (a, rest) \<Rightarrow> Ok a rest | None \<Rightarrow> Fail)"

fun map_pres :: "('a \<Rightarrow> 'b) \<Rightarrow> 'a pres \<Rightarrow> 'b pres" where
  "map_pres f (Ok a r) = Ok (f a) r"
| "map_pres f Fail = Fail"
| "map_pres f NoFuel = NoFuel"

fun parse_value :: "nat \<Rightarrow> string \<Rightarrow> jsval pres"
and parse_elems :: "nat \<Rightarrow> string \<Rightarrow> jsval list pres"
and parse_members :: "nat \<Rightarrow> string \<Rightarrow> (string \<times> jsval) list pres" where
  "parse_value 0 s = NoFuel"
| "parse_value (Suc n) s =
     (case skip_ws s of
        [] \<Rightarrow> Fail
      | c # r \<Rightarrow>
          if c = CHR ''['' then
            (case skip_ws r of
               d # r' \<Rightarrow> if d = CHR '']'' then Ok (JArr []) r' else map_pres JArr (parse_elems n (d # r'))
             | [] \<Rightarrow> Fail)
          else if c = CHR ''{'' then
            (case skip_ws r of
               d # r' \<Rightarrow> if d = CHR ''}'' then Ok (JObj []) r' else map_pres JObj (parse_members n (d # r'))
             | [] \<Rightarrow> Fail)
          else if c = CHR 0x22 then opt_pres (map_option (\<lambda>(t, rest). (JStr t, rest)) (parse_str r))
          else if take 4 (c # r) = ''true'' then Ok (JBool True) (drop 3 r)
          else if take 5 (c # r) = ''false'' then Ok (JBool False) (drop 4 r)
          else if take 4 (c # r) = ''null'' then Ok JNull (drop 3 r)
          else if c = CHR ''-'' \<or> is_digit c then opt_pres (parse_num (c # r))
          else Fail)"
| "parse_elems 0 s = NoFuel"
| "parse_elems (Suc n) s =
     (case parse_value n s of
        Ok v r \<Rightarrow>
          (case skip_ws r of
             d # r' \<Rightarrow> if d = CHR '','' then map_pres (Cons v) (parse_elems n r')
                       else if d = CHR '']'' then Ok [v] r' else Fail
           | [] \<Rightarrow> Fail)
      | Fail \<Rightarrow> Fail
      | NoFuel \<Rightarrow> NoFuel)"
| "parse_members 0 s = NoFuel"
| "parse_members (Suc n) s =
     (case skip_ws s of
        c # r \<Rightarrow>
          if c = CHR 0x22 then
            (case parse_str r of
               Some (k, r1) \<Rightarrow>
                 (case skip_ws r1 of
                    d # r2 \<Rightarrow>
                      if d = CHR '':'' then
                        (case parse_value n r2 of
                           Ok v r3 \<Rightarrow>
                             (case skip_ws r3 of
                                e # r4 \<Rightarrow> if e = CHR '','' then map_pres (Cons (k, v)) (parse_members n r4)
                                          else if e = CHR ''}'' then Ok [(k, v)] r4 else Fail
                              | [] \<Rightarrow> Fail)
                         | Fail \<Rightarrow> Fail
                         | NoFuel \<Rightarrow> NoFuel)
                      else Fail
                  | [] \<Rightarrow> Fail)
             | None \<Rightarrow> Fail)
          else Fail
      | [] \<Rightarrow> Fail)"

text \<open>What may follow a number on the wire: the end of the text, or a separator of an
  array or object.\<close>

definition delim :: "string \<Rightarrow> bool" where
  "delim r \<longleftrightarrow> r = [] \<or> hd r \<in> {CHR '','', CHR '']'', CHR ''}''}"

text \<open>\<open>JSON.parse\<close> on the backend: the whole text is one value, with white space around it.\<close>

definition json_parse :: "string \<Rightarrow> jsval option" where
  "json_parse s =
     (case parse_value (Suc (2 * length s)) s of
        Ok v r \<Rightarrow> if skip_ws r = [] then Some v else None
      | _ \<Rightarrow> None)"

section \<open>Reading the reply\<close>

text \<open>
  axios's default \<open>transformResponse\<close> (\<open>transitional.silentJSONParsing\<close> and
  \<open>forcedJSONParsing\<close> on, no \<open>responseType\<close>): a non-empty string body is passed to
  \<open>JSON.parse\<close>; when that throws, the raw string is kept. The empty string is not
  JSON either, so one test covers both cases.
\<close>

definition body_of_text :: "string \<Rightarrow> http_body" where
  "body_of_text t = (case json_parse t of Some v \<Rightarrow> JsonBody v | None \<Rightarrow> TextBody t)"

section \<open>Lemmas\<close>

lemma hex_value_hex_char [simp]: "d < 16 \<Longrightarrow> hex_value (hex_char d) = Some d"
  by (auto simp: hex_value_def hex_char_def Let_def)

lemma char_of_escaped [simp]:
  "char_of (34::nat) = CHR 0x22" "char_of (92::nat) = CHR 0x5C" "char_of (8::nat) = CHR 0x08"
  "char_of (12::nat) = CHR 0x0C" "char_of (10::nat) = CHR 0x0A" "char_of (13::nat) = CHR 0x0D"
  "char_of (9::nat) = CHR 0x09"
  by (rule of_char_eqI [where ?'a = nat], simp add: of_char_of)+

lemma parse_str_escape: "parse_str (json_escape c @ rest) = str_cons c (parse_str rest)"
proof -
  define n where "n = (of_char c :: nat)"
  have c: "c = char_of n" by (simp add: n_def)
  have n256: "n < 256" by (simp add: n_def)
  consider "n = 34" | "n = 92" | "n = 8" | "n = 12" | "n = 10" | "n = 13" | "n = 9"
    | "n < 32" "n \<notin> {8, 9, 10, 12, 13}" | "32 \<le> n" "n \<noteq> 34" "n \<noteq> 92"
    by (cases "n < 32") auto
  then show ?thesis
  proof cases
    case 8
    then have "n div 16 < 16" by simp
    moreover have "hex_value CHR ''0'' = Some 0" by (simp add: hex_value_def)
    ultimately have "hex4 CHR ''0'' CHR ''0'' (hex_char (n div 16)) (hex_char (n mod 16)) = Some n"
      by (simp add: hex4_def)
    with 8 c show ?thesis
      by (simp add: json_escape_def n_def[symmetric] Let_def)
  next
    case 9
    then have e: "json_escape c = [c]" by (simp add: json_escape_def n_def[symmetric] Let_def)
    from 9 have "c \<noteq> CHR 0x22" "c \<noteq> CHR 0x5C" "\<not> (of_char c :: nat) < 32"
      by (auto simp: n_def)
    with e show ?thesis by simp
  qed (simp_all add: c json_escape_def simple_escape_def Let_def)
qed

lemma parse_str_quote: "parse_str (concat (map json_escape s) @ CHR 0x22 # r) = Some (s, r)"
  by (induction s) (simp_all add: parse_str_escape str_cons_def)

lemma digits_prefix:
  "\<forall>c \<in> set ds. is_digit c \<Longrightarrow> delim r \<Longrightarrow>
     takeWhile is_digit (ds @ r) = ds \<and> dropWhile is_digit (ds @ r) = r"
  by (cases r) (auto simp: takeWhile_append2 dropWhile_append2 delim_def is_digit_def)

lemma digits_shape:
  assumes dg: "\<forall>c \<in> set ds. is_digit c" and ne: "ds \<noteq> []" and d: "delim r"
  shows "takeWhile is_digit (ds @ r) = ds" "dropWhile is_digit (ds @ r) = r"
    "dropWhile is_digit (ds @ r) \<noteq> [] \<longrightarrow> hd (dropWhile is_digit (ds @ r)) \<notin> {CHR ''.'', CHR ''e'', CHR ''E''}"
  using digits_prefix [OF dg d] d by (auto simp: delim_def)

lemma parse_num_nat: "delim r \<Longrightarrow> parse_num (nat_to_dec m @ r) = Some (JNum (int m), r)"
proof -
  assume d: "delim r"
  have dg: "\<forall>c \<in> set (nat_to_dec m). is_digit c" by (rule nat_to_dec_digits)
  obtain c t where ct: "nat_to_dec m = c # t" by (cases "nat_to_dec m") auto
  have "c \<noteq> CHR ''-''" using dg ct by (auto simp: is_digit_def)
  moreover have "c = CHR ''0'' \<longrightarrow> t = []" using nat_to_dec_lead ct by blast
  moreover have "is_digit c" "takeWhile is_digit t = t" using dg ct by (simp_all add: takeWhile_eq_all_conv)
  moreover note digits_shape [OF dg _ d] dec_value_nat_to_dec [of m]
  ultimately show ?thesis using ct by (cases "r = []") (simp_all add: parse_num_def Let_def del: takeWhile_eq_all_conv)
qed

lemma parse_num_int: "delim r \<Longrightarrow> parse_num (int_to_dec i @ r) = Some (JNum i, r)"
proof (cases "i < 0")
  case True
  assume d: "delim r"
  have dg: "\<forall>c \<in> set (nat_to_dec (nat (- i))). is_digit c" by (rule nat_to_dec_digits)
  obtain c t where ct: "nat_to_dec (nat (- i)) = c # t" by (cases "nat_to_dec (nat (- i))") auto
  have "c = CHR ''0'' \<longrightarrow> t = []" using nat_to_dec_lead ct by blast
  moreover have "is_digit c" "takeWhile is_digit t = t" using dg ct by (simp_all add: takeWhile_eq_all_conv)
  moreover note digits_shape [OF dg _ d] dec_value_nat_to_dec [of "nat (- i)"]
  ultimately show ?thesis using True ct
    by (cases "r = []") (simp_all add: parse_num_def int_to_dec_def Let_def del: takeWhile_eq_all_conv)
next
  case False
  assume "delim r"
  with False parse_num_nat [of r "nat i"] show ?thesis by (simp add: int_to_dec_def)
qed

lemma skip_ws_Cons [simp]: "\<not> json_ws c \<Longrightarrow> skip_ws (c # s) = c # s"
  by (simp add: skip_ws_def)

lemma skip_ws_punct [simp]:
  "skip_ws (CHR '']'' # r) = CHR '']'' # r" "skip_ws (CHR ''}'' # r) = CHR ''}'' # r"
  "skip_ws (CHR '','' # r) = CHR '','' # r" "skip_ws (CHR '':'' # r) = CHR '':'' # r"
  "skip_ws (CHR 0x22 # r) = CHR 0x22 # r" "skip_ws (CHR ''['' # r) = CHR ''['' # r"
  "skip_ws (CHR ''{'' # r) = CHR ''{'' # r"
  by (simp_all add: skip_ws_def json_ws_def)

lemma not_json_ws_digit: "is_digit c \<Longrightarrow> \<not> json_ws c"
  by (auto simp: is_digit_def json_ws_def)

lemma json_ser_head:
  "\<exists>c t. json_ser v = c # t \<and> \<not> json_ws c \<and> c \<noteq> CHR '']'' \<and> c \<noteq> CHR ''}'' \<and> c \<noteq> CHR '',''"
proof (cases v)
  case (JNum i)
  obtain c t where ct: "nat_to_dec (nat \<bar>i\<bar>) = c # t" by (cases "nat_to_dec (nat \<bar>i\<bar>)") auto
  have "is_digit c" using nat_to_dec_digits [of "nat \<bar>i\<bar>"] ct by simp
  then have "\<not> json_ws c \<and> c \<noteq> CHR '']'' \<and> c \<noteq> CHR ''}'' \<and> c \<noteq> CHR '',''"
    by (auto simp: not_json_ws_digit is_digit_def)
  with JNum ct show ?thesis by (auto simp: int_to_dec_def json_ws_def)
qed (simp_all add: json_ws_def json_quote_def)

lemma skip_ws_json_ser [simp]: "skip_ws (json_ser v @ r) = json_ser v @ r"
  using json_ser_head [of v] by auto

lemma json_ser_not_bracket [simp]:
  "json_ser v @ r \<noteq> CHR '']'' # s" "json_ser v @ r \<noteq> CHR ''}'' # s" "json_ser v \<noteq> []"
  using json_ser_head [of v] by auto

lemma delim_simps [simp]: "delim []" "delim (CHR '','' # r)" "delim (CHR '']'' # r)" "delim (CHR ''}'' # r)"
  by (simp_all add: delim_def)

lemma parse_elems_ser:
  assumes IH: "\<And>x n r. x \<in> set xs \<Longrightarrow> delim r \<Longrightarrow> length (json_ser x) < n \<Longrightarrow>
                 parse_value n (json_ser x @ r) = Ok (wire_norm x) r"
    and "xs \<noteq> []" and "Suc (length (join_with '','' (map json_ser xs))) < n"
  shows "parse_elems n (join_with '','' (map json_ser xs) @ CHR '']'' # r) = Ok (map wire_norm xs) r"
  using assms
proof (induction xs arbitrary: n rule: induct_list012)
  case (2 x)
  then obtain m where "n = Suc m" "length (json_ser x) < m" by (cases n) auto
  with "2.prems"(1) [where x = x and n = m and r = "CHR '']'' # r"] show ?case by simp
next
  case (3 x y zs)
  let ?t = "join_with '','' (map json_ser (y # zs))"
  have len: "length (join_with '','' (map json_ser (x # y # zs))) = length (json_ser x) + Suc (length ?t)"
    by simp
  have pos: "0 < length (json_ser x)" by simp
  obtain m where m: "n = Suc m" using "3.prems"(3) by (cases n) auto
  with len pos "3.prems"(3) have m2: "length (json_ser x) < m" "Suc (length ?t) < m" by linarith+
  have IHt: "\<And>x n r. x \<in> set (y # zs) \<Longrightarrow> delim r \<Longrightarrow> length (json_ser x) < n \<Longrightarrow>
               parse_value n (json_ser x @ r) = Ok (wire_norm x) r"
    using "3.prems"(1) by simp
  have tail: "parse_elems m (?t @ CHR '']'' # r) = Ok (map wire_norm (y # zs)) r"
    using "3.IH"(2) [OF IHt _ m2(2)] by simp
  have hd: "parse_value m (json_ser x @ CHR '','' # ?t @ CHR '']'' # r) = Ok (wire_norm x) (CHR '','' # ?t @ CHR '']'' # r)"
    by (rule "3.prems"(1)) (simp_all add: m2)
  show ?case using hd tail by (simp add: m)
qed simp

lemma parse_member_step:
  assumes IH: "delim (CHR '','' # rest) \<Longrightarrow> length (json_ser v) < m \<Longrightarrow>
                 parse_value m (json_ser v @ CHR '','' # rest) = Ok (wire_norm v) (CHR '','' # rest)"
    and "length (json_ser v) < m"
  shows "parse_members (Suc m) ((case (k, v) of (k, v) \<Rightarrow> json_quote k @ '':'' @ json_ser v) @ CHR '','' # rest) =
           map_pres (Cons (k, wire_norm v)) (parse_members m rest)"
  using assms by (simp add: json_quote_def parse_str_quote)

lemma parse_member_last:
  assumes IH: "delim (CHR ''}'' # r) \<Longrightarrow> length (json_ser v) < m \<Longrightarrow>
                 parse_value m (json_ser v @ CHR ''}'' # r) = Ok (wire_norm v) (CHR ''}'' # r)"
    and "length (json_ser v) < m"
  shows "parse_members (Suc m) ((case (k, v) of (k, v) \<Rightarrow> json_quote k @ '':'' @ json_ser v) @ CHR ''}'' # r) =
           Ok [(k, wire_norm v)] r"
  using assms by (simp add: json_quote_def parse_str_quote)

lemma parse_members_ser:
  assumes IH: "\<And>k v n r. (k, v) \<in> set ms \<Longrightarrow> delim r \<Longrightarrow> length (json_ser v) < n \<Longrightarrow>
                 parse_value n (json_ser v @ r) = Ok (wire_norm v) r"
    and "ms \<noteq> []"
    and "Suc (length (join_with '','' (map (\<lambda>(k, v). json_quote k @ '':'' @ json_ser v) ms))) < n"
  shows "parse_members n (join_with '','' (map (\<lambda>(k, v). json_quote k @ '':'' @ json_ser v) ms) @ CHR ''}'' # r) =
           Ok (map (\<lambda>(k, v). (k, wire_norm v)) ms) r"
  using assms
proof (induction ms arbitrary: n rule: induct_list012)
  case (2 kv)
  obtain k v where kv: "kv = (k, v)" by (cases kv)
  obtain m where m: "n = Suc m" using "2.prems"(3) by (cases n) auto
  with "2.prems"(3) kv have lt: "length (json_ser v) < m" by simp
  have "parse_members (Suc m) ((case (k, v) of (k, v) \<Rightarrow> json_quote k @ '':'' @ json_ser v) @ CHR ''}'' # r) =
          Ok [(k, wire_norm v)] r"
    by (rule parse_member_last [OF "2.prems"(1) lt]) (simp_all add: kv)
  then show ?case by (simp add: m kv)
next
  case (3 kv y zs)
  obtain k v where kv: "kv = (k, v)" by (cases kv)
  let ?t = "join_with '','' (map (\<lambda>(k, v). json_quote k @ '':'' @ json_ser v) (y # zs))"
  obtain m where m: "n = Suc m" using "3.prems"(3) by (cases n) auto
  with "3.prems"(3) kv have m2: "length (json_ser v) < m" "Suc (length ?t) < m"
    by (simp_all add: json_quote_def)
  have IHt: "\<And>k v n r. (k, v) \<in> set (y # zs) \<Longrightarrow> delim r \<Longrightarrow> length (json_ser v) < n \<Longrightarrow>
               parse_value n (json_ser v @ r) = Ok (wire_norm v) r"
    using "3.prems"(1) by (metis list.set_intros(2))
  have tail: "parse_members m (?t @ CHR ''}'' # r) = Ok (map (\<lambda>(k, v). (k, wire_norm v)) (y # zs)) r"
    using "3.IH"(2) [OF IHt _ m2(2)] by simp
  have "parse_members (Suc m) ((case (k, v) of (k, v) \<Rightarrow> json_quote k @ '':'' @ json_ser v) @ CHR '','' # ?t @ CHR ''}'' # r) =
          map_pres (Cons (k, wire_norm v)) (parse_members m (?t @ CHR ''}'' # r))"
    by (rule parse_member_step [OF "3.prems"(1) [where k = k] m2(1)]) (simp_all add: kv)
  with tail show ?case by (simp add: m kv)
qed simp

lemma join_with_Cons_prefix: "\<exists>t. join_with sep (a # as) = a @ t"
  by (cases as) auto

lemma int_to_dec_head: "\<exists>c t. int_to_dec i = c # t \<and> (c = CHR ''-'' \<or> is_digit c)"
proof -
  obtain c t where ct: "nat_to_dec (nat \<bar>i\<bar>) = c # t" by (cases "nat_to_dec (nat \<bar>i\<bar>)") auto
  have "is_digit c" using nat_to_dec_digits [of "nat \<bar>i\<bar>"] ct by simp
  with ct show ?thesis by (auto simp: int_to_dec_def)
qed

lemma parse_value_ser:
  "delim r \<Longrightarrow> length (json_ser v) < n \<Longrightarrow> parse_value n (json_ser v @ r) = Ok (wire_norm v) r"
proof (induction v arbitrary: n r rule: json_ser.induct)
  case (4 i)
  obtain m where m: "n = Suc m" using "4.prems"(2) by (cases n) auto
  obtain c t where ct: "int_to_dec i = c # t" and c: "c = CHR ''-'' \<or> is_digit c"
    using int_to_dec_head by blast
  have "\<not> json_ws c" using c not_json_ws_digit [of c] by (auto simp: json_ws_def)
  moreover have "c \<notin> {CHR ''['', CHR ''{'', CHR 0x22, CHR ''t'', CHR ''f'', CHR ''n''}"
    using c by (auto simp: is_digit_def)
  ultimately show ?case using parse_num_int [OF "4.prems"(1), of i] ct m c by (simp add: opt_pres_def)
next
  case (6 xs)
  obtain m where m: "n = Suc m" using "6.prems"(2) by (cases n) auto
  show ?case
  proof (cases xs)
    case (Cons x xs')
    obtain t where t: "join_with '','' (map json_ser xs) = json_ser x @ t"
      using join_with_Cons_prefix Cons by fastforce
    have "Suc (length (join_with '','' (map json_ser xs))) < m" using "6.prems"(2) m by simp
    from parse_elems_ser [OF "6.IH" _ this, of r] Cons
    have "parse_elems m (join_with '','' (map json_ser xs) @ CHR '']'' # r) = Ok (map wire_norm xs) r"
      by simp
    moreover obtain c u where "json_ser x = c # u" "c \<noteq> CHR '']''" "\<not> json_ws c"
      using json_ser_head [of x] by blast
    ultimately show ?thesis using t m by simp
  qed (simp add: m)
next
  case (7 kvs)
  let ?ms = "obj_members kvs"
  obtain m where m: "n = Suc m" using "7.prems"(2) by (cases n) auto
  show ?case
  proof (cases ?ms)
    case (Cons kv ms')
    then have ne: "?ms \<noteq> []" by simp
    obtain t where t: "join_with '','' (map (\<lambda>(k, v). json_quote k @ '':'' @ json_ser v) ?ms) =
                        CHR 0x22 # t"
    proof -
      obtain t0 where "join_with '','' (map (\<lambda>(k, v). json_quote k @ '':'' @ json_ser v) ?ms) =
                        (case kv of (k, v) \<Rightarrow> json_quote k @ '':'' @ json_ser v) @ t0"
        using join_with_Cons_prefix Cons by fastforce
      then show thesis using that by (cases kv) (simp add: json_quote_def)
    qed
    have "Suc (length (join_with '','' (map (\<lambda>(k, v). json_quote k @ '':'' @ json_ser v) ?ms))) < m"
      using "7.prems"(2) m by simp
    note fuel = this
    have IH7: "\<And>k v n r. (k, v) \<in> set ?ms \<Longrightarrow> delim r \<Longrightarrow> length (json_ser v) < n \<Longrightarrow>
                 parse_value n (json_ser v @ r) = Ok (wire_norm v) r"
      using "7.IH" by blast
    have "parse_members m (join_with '','' (map (\<lambda>(k, v). json_quote k @ '':'' @ json_ser v) ?ms) @
            CHR ''}'' # r) = Ok (map (\<lambda>(k, v). (k, wire_norm v)) ?ms) r"
      by (rule parse_members_ser [OF IH7 ne fuel])
    with t m show ?thesis by simp
  qed (simp add: m)
qed (auto simp: json_ws_def json_quote_def parse_str_quote opt_pres_def elim!: less_natE)

lemma array_index_body_keys [simp]:
  "array_index ''q'' = None" "array_index ''k'' = None" "array_index ''mode'' = None"
  by (simp_all add: array_index_def is_digit_def)

lemma wire_norm_ask_body: "wire_norm (req_body (ask_request q)) = req_body (ask_request q)"
  by (simp add: ask_request_def obj_members_def key_order_def prop_lookup_def)

lemma json_parse_json_ser: "json_parse (json_ser v) = Some (wire_norm v)"
  using parse_value_ser [of "[]" v "Suc (2 * length (json_ser v))"] by (simp add: json_parse_def skip_ws_def)

lemma map_pres_eq_iff [simp]:
  "map_pres f p = Ok b r \<longleftrightarrow> (\<exists>a. p = Ok a r \<and> b = f a)"
  "map_pres f p = NoFuel \<longleftrightarrow> p = NoFuel"
  "map_pres f p = Fail \<longleftrightarrow> p = Fail"
  by (cases p; auto)+

lemma opt_pres_eq_iff [simp]:
  "opt_pres p = Ok a r \<longleftrightarrow> p = Some (a, r)" "opt_pres p \<noteq> NoFuel"
  by (auto simp: opt_pres_def split: option.splits)

lemma length_skip_ws: "length (skip_ws s) \<le> length s"
  by (simp add: skip_ws_def length_dropWhile_le)

lemma str_cons_Some [simp]: "str_cons c p = Some (t, r) \<longleftrightarrow> (\<exists>t'. p = Some (t', r) \<and> t = c # t')"
  by (cases p) (auto simp: str_cons_def)

lemma parse_str_shorter: "parse_str s = Some (t, r) \<Longrightarrow> length r < length s"
proof (induction s arbitrary: t rule: parse_str.induct)
  case (2 c r0)
  then show ?case
    by (auto split: if_splits list.splits option.splits) fastforce+
qed simp

lemma parse_num_shorter: "parse_num s = Some (v, r) \<Longrightarrow> length r < length s"
proof -
  assume p: "parse_num s = Some (v, r)"
  define t where "t = (if s \<noteq> [] \<and> hd s = CHR ''-'' then tl s else s)"
  have ne: "takeWhile is_digit t \<noteq> []" and r: "r = dropWhile is_digit t"
    using p by (auto simp: parse_num_def Let_def t_def split: if_splits)
  have "length (takeWhile is_digit t) + length (dropWhile is_digit t) = length t"
    by (metis length_append takeWhile_dropWhile_id)
  moreover have "0 < length (takeWhile is_digit t)" using ne by blast
  ultimately have "length r < length t" unfolding r by linarith
  moreover have "length t \<le> length s" by (simp add: t_def)
  ultimately show ?thesis by linarith
qed

lemma skip_ws_Cons_shorter: "skip_ws s = c # r \<Longrightarrow> length r < length s"
  using length_skip_ws [of s] by simp

lemma parse_consumes:
  "parse_value n s = Ok v r \<Longrightarrow> length r < length s"
  "parse_elems n s = Ok vs r \<Longrightarrow> length r < length s"
  "parse_members n s = Ok ms r \<Longrightarrow> length r < length s"
proof (induction n s and n s and n s arbitrary: v r and vs r and ms r
       rule: parse_value_parse_elems_parse_members.induct)
  case (2 n s)
  obtain c r0 where sk: "skip_ws s = c # r0" using "2.prems" by (cases "skip_ws s") auto
  then have l0: "length r0 < length s" by (rule skip_ws_Cons_shorter)
  consider (arr) "c = CHR ''[''" | (obj) "c = CHR ''{''" | (str) "c = CHR 0x22"
    | (lit) "c \<noteq> CHR ''[''" "c \<noteq> CHR ''{''" "c \<noteq> CHR 0x22" by blast
  then show ?case
  proof cases
    case arr
    obtain d r' where sk2: "skip_ws r0 = d # r'" using "2.prems" sk arr by (cases "skip_ws r0") auto
    then have l1: "length r' < length r0" by (rule skip_ws_Cons_shorter)
    have "r = r' \<or> (\<exists>vs. d \<noteq> CHR '']'' \<and> parse_elems n (d # r') = Ok vs r)"
      using "2.prems" sk sk2 arr by (auto split: if_splits)
    then show ?thesis using "2.IH"(1) [OF sk arr sk2] l0 l1 by fastforce
  next
    case obj
    obtain d r' where sk2: "skip_ws r0 = d # r'" using "2.prems" sk obj by (cases "skip_ws r0") auto
    then have l1: "length r' < length r0" by (rule skip_ws_Cons_shorter)
    have "r = r' \<or> (\<exists>ms. d \<noteq> CHR ''}'' \<and> parse_members n (d # r') = Ok ms r)"
      using "2.prems" sk sk2 obj by (auto split: if_splits)
    then show ?thesis using "2.IH"(2) [OF sk _ obj sk2] l0 l1 obj by fastforce
  next
    case str
    then have "\<exists>t. parse_str r0 = Some (t, r)" using "2.prems" sk by (auto split: option.splits)
    then show ?thesis using l0 by (auto dest!: parse_str_shorter)
  next
    case lit
    then have "opt_pres (parse_num (c # r0)) = Ok v r \<or> r = drop 3 r0 \<or> r = drop 4 r0"
      using "2.prems" sk by (simp split: if_splits)
    then show ?thesis using l0 by (auto dest!: parse_num_shorter)
  qed
next
  case (4 n s)
  obtain v1 r1 where pv: "parse_value n s = Ok v1 r1" using "4.prems" by (cases "parse_value n s") auto
  then have l0: "length r1 < length s" by (rule "4.IH"(1))
  obtain d r' where sk: "skip_ws r1 = d # r'" using "4.prems" pv by (cases "skip_ws r1") auto
  then have l1: "length r' < length r1" by (rule skip_ws_Cons_shorter)
  have "r = r' \<or> (\<exists>vs. d = CHR '','' \<and> parse_elems n r' = Ok vs r)"
    using "4.prems" pv sk by (auto split: if_splits)
  then show ?case using "4.IH"(2) [OF pv sk] l0 l1 by fastforce
next
  case (6 n s)
  obtain c r0 where sk: "skip_ws s = c # r0" using "6.prems" by (cases "skip_ws s") auto
  then have l0: "length r0 < length s" by (rule skip_ws_Cons_shorter)
  obtain k r1 where ps: "parse_str r0 = Some (k, r1)" and c: "c = CHR 0x22"
    using "6.prems" sk by (cases "parse_str r0") (auto split: if_splits)
  then have l1: "length r1 < length r0" by (auto dest: parse_str_shorter)
  obtain d r2 where sk2: "skip_ws r1 = d # r2" and d: "d = CHR '':''"
    using "6.prems" sk c ps by (cases "skip_ws r1") (auto split: if_splits)
  then have l2: "length r2 < length r1" by (auto dest: skip_ws_Cons_shorter)
  obtain v1 r3 where pv: "parse_value n r2 = Ok v1 r3"
    using "6.prems" sk c ps sk2 d by (cases "parse_value n r2") auto
  have l3: "length r3 < length r2" by (rule "6.IH"(1) [OF sk c ps _ sk2 d pv]) simp
  obtain e r4 where sk3: "skip_ws r3 = e # r4"
    using "6.prems" sk c ps sk2 d pv by (cases "skip_ws r3") auto
  then have l4: "length r4 < length r3" by (rule skip_ws_Cons_shorter)
  have "r = r4 \<or> (\<exists>ms. e = CHR '','' \<and> parse_members n r4 = Ok ms r)"
    using "6.prems" sk c ps sk2 d pv sk3 by (auto split: if_splits)
  then show ?case using "6.IH"(2) [OF sk c ps _ sk2 d pv sk3, OF refl] l0 l1 l2 l3 l4 by fastforce
qed simp_all

lemma parse_fuel:
  "2 * length s < n \<Longrightarrow> parse_value n s \<noteq> NoFuel"
  "2 * length s + 1 < n \<Longrightarrow> parse_elems n s \<noteq> NoFuel"
  "2 * length s + 1 < n \<Longrightarrow> parse_members n s \<noteq> NoFuel"
proof (induction n s and n s and n s rule: parse_value_parse_elems_parse_members.induct)
  case (2 n s)
  show ?case
  proof
    assume nf: "parse_value (Suc n) s = NoFuel"
    obtain c r0 where sk: "skip_ws s = c # r0" using nf by (cases "skip_ws s") auto
    then have l0: "length r0 < length s" by (rule skip_ws_Cons_shorter)
    have c: "c = CHR ''['' \<or> c = CHR ''{''" using nf sk by (auto split: if_splits)
    then obtain d r' where sk2: "skip_ws r0 = d # r'" using nf sk by (cases "skip_ws r0") auto
    then have "length r' < length r0" by (rule skip_ws_Cons_shorter)
    with l0 "2.prems" have fuel: "2 * length (d # r') + 1 < n" by simp
    from c show False
    proof
      assume arr: "c = CHR ''[''"
      then have "d \<noteq> CHR '']''" "parse_elems n (d # r') = NoFuel"
        using nf sk sk2 by (auto split: if_splits)
      with "2.IH"(1) [OF sk arr sk2] fuel show False by blast
    next
      assume obj: "c = CHR ''{''"
      then have "d \<noteq> CHR ''}''" "parse_members n (d # r') = NoFuel"
        using nf sk sk2 by (auto split: if_splits)
      with "2.IH"(2) [OF sk _ obj sk2] fuel obj show False by fastforce
    qed
  qed
next
  case (4 n s)
  have f0: "2 * length s < n" using "4.prems" by simp
  show ?case
  proof
    assume nf: "parse_elems (Suc n) s = NoFuel"
    obtain v1 r1 where pv: "parse_value n s = Ok v1 r1"
      using nf "4.IH"(1) [OF f0] by (cases "parse_value n s") auto
    then have l0: "length r1 < length s" by (rule parse_consumes(1))
    obtain d r' where sk: "skip_ws r1 = d # r'" using nf pv by (cases "skip_ws r1") auto
    then have "length r' < length r1" by (rule skip_ws_Cons_shorter)
    with l0 "4.prems" have fuel: "2 * length r' + 1 < n" by simp
    have "d = CHR '',''" "parse_elems n r' = NoFuel" using nf pv sk by (auto split: if_splits)
    with "4.IH"(2) [OF pv sk] fuel show False by blast
  qed
next
  case (6 n s)
  show ?case
  proof
    assume nf: "parse_members (Suc n) s = NoFuel"
    obtain c r0 where sk: "skip_ws s = c # r0" using nf by (cases "skip_ws s") auto
    then have l0: "length r0 < length s" by (rule skip_ws_Cons_shorter)
    obtain k r1 where ps: "parse_str r0 = Some (k, r1)" and c: "c = CHR 0x22"
      using nf sk by (cases "parse_str r0") (auto split: if_splits)
    then have l1: "length r1 < length r0" by (auto dest: parse_str_shorter)
    obtain d r2 where sk2: "skip_ws r1 = d # r2" and d: "d = CHR '':''"
      using nf sk c ps by (cases "skip_ws r1") (auto split: if_splits)
    then have l2: "length r2 < length r1" by (auto dest: skip_ws_Cons_shorter)
    have f2: "2 * length r2 < n" using "6.prems" l0 l1 l2 by simp
    obtain v1 r3 where pv: "parse_value n r2 = Ok v1 r3"
      using nf sk c ps sk2 d "6.IH"(1) [OF sk c ps _ sk2 d f2, OF refl] by (cases "parse_value n r2") auto
    then have l3: "length r3 < length r2" by (rule parse_consumes(1))
    obtain e r4 where sk3: "skip_ws r3 = e # r4"
      using nf sk c ps sk2 d pv by (cases "skip_ws r3") auto
    then have "length r4 < length r3" by (rule skip_ws_Cons_shorter)
    with l0 l1 l2 l3 "6.prems" have fuel: "2 * length r4 + 1 < n" by simp
    have "e = CHR '',''" "parse_members n r4 = NoFuel" using nf sk c ps sk2 d pv sk3 by (auto split: if_splits)
    with "6.IH"(2) [OF sk c ps _ sk2 d pv sk3, OF refl] fuel show False by blast
  qed
qed simp_all

lemma parse_mono:
  "parse_value n s \<noteq> NoFuel \<Longrightarrow> n \<le> m \<Longrightarrow> parse_value m s = parse_value n s"
  "parse_elems n s \<noteq> NoFuel \<Longrightarrow> n \<le> m \<Longrightarrow> parse_elems m s = parse_elems n s"
  "parse_members n s \<noteq> NoFuel \<Longrightarrow> n \<le> m \<Longrightarrow> parse_members m s = parse_members n s"
proof (induction n s and n s and n s arbitrary: m and m and m rule: parse_value_parse_elems_parse_members.induct)
  case (2 n s)
  obtain m' where m: "m = Suc m'" "n \<le> m'" using "2.prems"(2) by (cases m) auto
  show ?case
  proof (cases "skip_ws s")
    case (Cons c r0)
    show ?thesis
    proof (cases "c = CHR ''['' \<or> c = CHR ''{''")
      case True
      show ?thesis
      proof (cases "skip_ws r0")
        case (Cons d r')
        from True show ?thesis
        proof
          assume arr: "c = CHR ''[''"
          show ?thesis
          proof (cases "d = CHR '']''")
            case False
            then have "parse_elems n (d # r') \<noteq> NoFuel" using "2.prems"(1) \<open>skip_ws s = c # r0\<close> arr Cons by simp
            from "2.IH"(1) [OF \<open>skip_ws s = c # r0\<close> arr Cons False this m(2)]
            show ?thesis using \<open>skip_ws s = c # r0\<close> arr Cons False m(1) by simp
          qed (simp add: m(1) \<open>skip_ws s = c # r0\<close> arr Cons)
        next
          assume obj: "c = CHR ''{''"
          show ?thesis
          proof (cases "d = CHR ''}''")
            case False
            then have "parse_members n (d # r') \<noteq> NoFuel" using "2.prems"(1) \<open>skip_ws s = c # r0\<close> obj Cons by simp
            from "2.IH"(2) [OF \<open>skip_ws s = c # r0\<close> _ obj Cons False this m(2)]
            show ?thesis using \<open>skip_ws s = c # r0\<close> obj Cons False m(1) by simp
          qed (simp add: m(1) \<open>skip_ws s = c # r0\<close> obj Cons)
        qed
      qed (use True \<open>skip_ws s = c # r0\<close> m(1) in auto)
    qed (simp add: m(1) \<open>skip_ws s = c # r0\<close>)
  qed (simp add: m(1))
next
  case (4 n s)
  obtain m' where m: "m = Suc m'" "n \<le> m'" using "4.prems"(2) by (cases m) auto
  have nf: "parse_value n s \<noteq> NoFuel" using "4.prems"(1) by (auto split: pres.splits)
  have pv: "parse_value m' s = parse_value n s" by (rule "4.IH"(1) [OF nf m(2)])
  show ?case
  proof (cases "parse_value n s")
    case (Ok v1 r1)
    show ?thesis
    proof (cases "skip_ws r1")
      case (Cons d r')
      show ?thesis
      proof (cases "d = CHR '',''")
        case True
        then have "parse_elems n r' \<noteq> NoFuel" using "4.prems"(1) Ok Cons by simp
        from "4.IH"(2) [OF Ok Cons True this m(2)]
        show ?thesis using Ok Cons True m(1) pv by simp
      qed (simp add: m(1) pv Ok Cons)
    qed (simp add: m(1) pv Ok)
  qed (simp_all add: m(1) pv)
next
  case (6 n s)
  obtain m' where m: "m = Suc m'" "n \<le> m'" using "6.prems"(2) by (cases m) auto
  note P = "6.prems"(1)
  show ?case
  proof (cases "skip_ws s")
    case sk: (Cons c r0)
    show ?thesis
    proof (cases "c = CHR 0x22")
      case c: True
      show ?thesis
      proof (cases "parse_str r0")
        case ps: (Some kr)
        obtain k r1 where kr: "kr = (k, r1)" by (cases kr)
        show ?thesis
        proof (cases "skip_ws r1")
          case sk2: (Cons d r2)
          show ?thesis
          proof (cases "d = CHR '':''")
            case d: True
            have nf: "parse_value n r2 \<noteq> NoFuel" using P sk c ps kr sk2 d by (auto split: pres.splits)
            have pv: "parse_value m' r2 = parse_value n r2"
              by (rule "6.IH"(1) [OF sk c ps kr [symmetric] sk2 d nf m(2)])
            show ?thesis
            proof (cases "parse_value n r2")
              case pr: (Ok v r3)
              show ?thesis
              proof (cases "skip_ws r3")
                case sk3: (Cons e r4)
                show ?thesis
                proof (cases "e = CHR '',''")
                  case e: True
                  have "parse_members n r4 \<noteq> NoFuel" using P sk c ps kr sk2 d pr sk3 e by simp
                  from "6.IH"(2) [OF sk c ps kr [symmetric] sk2 d pr sk3 e this m(2)]
                  show ?thesis using sk c ps kr sk2 d pr sk3 e m(1) pv by simp
                qed (simp add: m(1) sk c ps kr sk2 d pr sk3 pv)
              qed (simp add: m(1) sk c ps kr sk2 d pr pv)
            qed (simp_all add: m(1) sk c ps kr sk2 d pv)
          qed (simp add: m(1) sk c ps kr sk2)
        qed (simp add: m(1) sk c ps kr)
      qed (simp add: m(1) sk c)
    qed (simp add: m(1) sk)
  qed (simp add: m(1))
qed simp_all

lemma parse_value_fuel_free:
  assumes "parse_value n s = Ok v r"
  shows "parse_value (Suc (2 * length s)) s = Ok v r"
proof (cases "n \<le> Suc (2 * length s)")
  case True
  with assms parse_mono(1) [of n s "Suc (2 * length s)"] show ?thesis by simp
next
  case False
  with assms parse_mono(1) [of "Suc (2 * length s)" s n] parse_fuel(1) [of s "Suc (2 * length s)"]
  show ?thesis by simp
qed

lemma body_of_text_json_ser: "body_of_text (json_ser v) = JsonBody (wire_norm v)"
  by (simp add: body_of_text_def json_parse_json_ser)

lemma json_parse_Some:
  "json_parse s = Some v \<longleftrightarrow> (\<exists>r. parse_value (Suc (2 * length s)) s = Ok v r \<and> skip_ws r = [])"
proof -
  define N where "N = Suc (2 * length s)"
  show ?thesis
    unfolding json_parse_def N_def [symmetric] by (cases "parse_value N s") auto
qed

text \<open>The reader terminates within its fuel: with fuel above twice the length of
  the text, \<open>parse_value\<close> never reports running out of fuel, so every
  \<open>None\<close> of \<open>json_parse\<close> is a syntax error of the text and never a cut-off recursion.\<close>

lemma json_parse_fuel: "parse_value (Suc (2 * length s)) s \<noteq> NoFuel"
  by (rule parse_fuel(1)) simp

text \<open>The fuel bound chosen in \<open>json_parse\<close> loses nothing: \<open>json_parse\<close>
  accepts a text with a value exactly when the reader with some amount of fuel reads
  that value followed only by white space.\<close>

lemma json_parse_iff: "json_parse s = Some v \<longleftrightarrow> (\<exists>n r. parse_value n s = Ok v r \<and> skip_ws r = [])"
  unfolding json_parse_Some by (blast dest: parse_value_fuel_free)

end
