(* ===== verification/Spec2Isabelle.thy ===== *)
theory Spec2Isabelle
  imports Spec_Model Page_Invariants Commit_Policies Json_Wire
begin

text \<open>
  \<^bold>\<open>A verification model of the RAG search front end (src/rag-frontend/src/App.js).\<close>

  The program is one React function component, \<open>App\<close>. It keeps four pieces of
  state (\<open>query\<close>, \<open>results\<close>, \<open>loading\<close>, \<open>error\<close>), renders a form with a text
  input and a submit button, an error banner and a list of result cards, and on submit
  runs the \<open>async\<close> handler \<open>handleSubmit\<close>, which posts the query to the search
  backend at \<open>http://127.0.0.1:8000/ask\<close> with axios and stores the \<open>contexts\<close> of the
  reply. The parts and the theories that model them:

  \<^item> \<^bold>\<open>Prelude\<close>: shared helpers (a bind for throw-or-value results, removal by
    index, decimal digits) and the theorem collections \<open>js_simps\<close>, \<open>upd_simps\<close>.
  \<^item> \<^bold>\<open>JS_Values\<close>: the JavaScript values the code reads (JSON values and
    \<open>undefined\<close>) and the language operations it applies to them: property access
    (\<open>get_prop\<close>, throwing on \<open>null\<close>/\<open>undefined\<close>), \<open>.map\<close> on a non-array
    (\<open>array_elems\<close>), truthiness, \<open>String.prototype.trim\<close>, and \<open>String(v)\<close>
    through ToPrimitive (\<open>js_to_string\<close>), which throws on an object with an own
    \<open>toString\<close> member and on an array reaching one (\<open>to_primitive_throws\<close>).
    JSON numbers are integers; strings are 8-bit code units.
  \<^item> \<^bold>\<open>Js_Number\<close>: \<open>ToNumber\<close> (StringToNumber in full: fractions, exponents,
    \<open>0x\<close>/\<open>0o\<close>/\<open>0b\<close>, \<open>Infinity\<close>, kept as the exact value \<open>js_number\<close>; objects and
    arrays through ToPrimitive, which may throw) and \<open>v > 0\<close> (with the binary64
    underflow threshold \<open>2^-1075\<close>), as line 58 applies them to \<open>results.length\<close>.
  \<^item> \<^bold>\<open>App_State\<close> (App.js lines 7--10): the record \<open>app_state\<close> of the four hooks,
    \<open>init_state\<close>, the queued setter calls \<open>upd\<close> and their in-order application
    \<open>apply_upds\<close> (React 18 batching).
  \<^item> \<^bold>\<open>Handle_Submit\<close> (lines 12--36): \<open>handleSubmit\<close> up to the \<open>await\<close>, returning
    the batch it queued and the request it issued (\<open>ask_request\<close>), if any;
    \<open>handleSubmit_resume\<close> after the promise settles (\<open>try\<close>/\<open>catch\<close>/\<open>finally\<close>,
    with what reaches \<open>console.error\<close>); \<open>axios_post\<close>, how axios turns an HTTP reply
    into a fulfilled response or a rejection.
  \<^item> \<^bold>\<open>Render\<close> (lines 38--72): \<open>render\<close>, the JSX as a view record (input value, button
    flag and label, error banner, cards / placeholder / nothing), which throws where
    the JSX throws; \<open>react_text\<close>, \<open>react_href\<close> and \<open>commits\<close>, what React DOM accepts.
  \<^item> \<^bold>\<open>Runtime\<close>: the page as a state machine. A \<open>world\<close> holds the state, whether the
    tree is still mounted, the pending requests and the console log; \<open>world_step\<close>
    handles typing, the submit button (refused while disabled), a scripted form
    submission, and the arrival of a reply for any pending request, in any order;
    \<open>reach ok\<close> are the worlds reachable with the events \<open>ok\<close> allows, and
    \<open>settle_inv\<close> what holds on all of them.
  \<^item> \<^bold>\<open>Spec_Model\<close>: the contract of the spec (sections 3, 4.1, 6): view states
    \<open>Idle | Loading | Success items | Failure msg\<close> and their steps \<open>astep\<close>, the
    wire format of result items (\<open>encode_item\<close>, \<open>decode_response\<close>), how the spec
    classifies a reply (\<open>spec_reply\<close>), the rendering contract \<open>arender\<close>, and the
    relations \<open>corr\<close>/\<open>wcorr\<close> between the code's flags and a view state.
  \<^item> \<^bold>\<open>Page_Invariants\<close>: \<open>state_wf\<close>, the shape every reachable page has whatever
    events drove it, and \<open>event_log\<close>, what each event passes to \<open>console.error\<close>.
  \<^item> \<^bold>\<open>Commit_Policies\<close>: React 17's policy after the \<open>await\<close>, where each setter
    call commits at once and a failed render is rethrown out of the setter into the
    handler's \<open>catch\<close> (\<open>set17\<close>, \<open>catch17\<close>, \<open>finally17\<close>,
    \<open>handleSubmit_resume17\<close>, \<open>world_step17\<close>, \<open>run17\<close>), against React 18's batches;
    \<open>screen17\<close> relates the two pages.
  \<^item> \<^bold>\<open>Json_Wire\<close>: the request body on the wire. \<open>json_stringify\<close> is
    \<open>JSON.stringify\<close>, which axios applies to the body of lines 23--27 (escapes,
    \<open>undefined\<close> members dropped, array-index keys first, repeated keys once);
    \<open>json_parse\<close> is the backend's reader (RFC 8259, integer numbers), written as
    mutually recursive \<open>parse_value\<close>/\<open>parse_elems\<close>/\<open>parse_members\<close> with fuel;
    \<open>wire_norm\<close> is the value a serialised text denotes; \<open>body_of_text\<close> is axios's
    default response transform, which reads a reply's text with \<open>JSON.parse\<close> and keeps
    the raw string when that throws. Library lemmas: \<open>parse_value_ser\<close> (reading back
    the text of any value), \<open>parse_consumes\<close>, \<open>parse_fuel\<close>, \<open>parse_mono\<close>, hence
    \<open>json_parse_iff\<close> and \<open>json_parse_json_ser\<close>.
  \<^item> this theory: the properties that span the handler, the renderer, the runtime and
    the wire.

  The claims (ids in the text before each theorem):
  \<^item> the handler: the blank and non-blank paths (C1, C2), the effect of each kind of
    reply (C3, C4), the \<open>finally\<close> update last (C5);
  \<^item> the running page, by rule induction over reachable worlds: at most one pending
    request and loading exactly then, under user events (C6); a scripted submission
    breaks this (C7); replies are not matched to their query, so along any sequence
    of arrivals the last reply to arrive decides the results (C8, by induction on
    the arrivals); a pending request can always settle and re-enable the button
    (C9); typing changes only the query (C17); loading only while a request is
    pending and a mounted page renders, on every reachable page (C22);
  \<^item> refinement: the JSX renders exactly the spec's rendering contract (C10), and every
    user step is matched by a step of the spec's state machine for all replies inside
    the contract, the page staying mounted (C11, a forward simulation);
  \<^item> rendering: exactly when the JSX throws, ToPrimitive of \<open>results.length\<close>
    included (C12), and the card list for any array of objects (C13);
  \<^item> failures: a rejected request shows the banner and also the placeholder (C14); a
    malformed successful reply unmounts the page instead of showing the failure (C15);
  \<^item> end to end: the round trip from an encoded item list to the cards on screen (C16),
    and the backend receives exactly the input field, untrimmed (C21: handler,
    runtime and wire together);
  \<^item> invariants: every reachable page is well formed (C18, by rule induction,
    scripted submissions included); the console log is exactly the trace of failed
    replies in arrival order (C20);
  \<^item> React 17 against React 18: the same event sequences are possible, with the same
    screen while mounted; once a render has failed React 17 has logged exactly one
    exception more, the render's (C19, a lock-step simulation through \<open>screen17\<close>).

  Findings these theorems record: a 2xx reply that is not JSON or lacks
  \<open>contexts\<close> crashes the page (C15; the spec says it is a Failure); the placeholder
  is shown under the error banner (C14; the spec's scenario says it is not); a
  \<open>contexts\<close> that is a non-empty string crashes, while a number is silently shown
  as no results, and an object whose \<open>length\<close> has an own \<open>toString\<close> crashes in
  the comparison of line 58 (C12); a scripted submission re-enables the button while
  a request is pending (C7); whether the crash of C15 reaches the handler's
  \<open>console.error\<close> depends on the React version (C19). That a stale reply
  overwrites newer results (C8) is the race spec section 5 describes.

  Not modelled: the search itself (out of the repository; its replies are arbitrary
  elements of \<open>http_reply\<close>, whose body is parsed JSON or raw text, or text read
  with \<open>body_of_text\<close>); fractions and exponents of JSON numbers and code units
  above 255 in \<open>\u\<close> escapes (values of \<open>jsval\<close> are integers and 8-bit
  strings); the latitude ECMAScript gives \<open>Number\<close> after the 20th significant digit,
  which could only matter for a numeral within that rounding of \<open>2^-1075\<close>; styling
  (App.css), the static header text and the class names, which have no behaviour;
  React internals beyond batching, unmounting on a render error (and, for React 17,
  rethrowing it from the setter) and child validation; which of two errors React DOM
  reports first when a tree has several (\<open>render_exc\<close> reports the JSX's own
  exception, or \<open>ReactError\<close>).

  Fuel: the one bounded recursion is the JSON reader. Each call of
  \<open>parse_value\<close> on an array or object hands one less unit to
  \<open>parse_elems\<close>/\<open>parse_members\<close>, which call \<open>parse_value\<close> on the same input, so
  two units per character suffice: \<open>json_parse\<close> gives \<open>1 + 2 * length\<close>, and
  \<open>parse_fuel\<close> and \<open>json_parse_iff\<close> show it is enough. Every other recursive
  definition is structural or decreases the size of its argument (\<open>json_ser\<close>,
  \<open>wire_norm\<close>, \<open>js_to_string\<close>). The event loop is a relation over finite event
  sequences (\<open>run\<close>, \<open>reach\<close>), so no loop of the page needs fuel.

  Plan for later work: JSON numbers with fractions and exponents, which needs
  numbers beyond \<open>int\<close> in \<open>jsval\<close> and rounding throughout.
\<close>

section \<open>End-to-end behaviour of the page\<close>

text \<open>
  C14. A failed request on a page driven by its user: when the pending request is
  rejected (no response, or a status outside 200--299), the page stays mounted, the
  rejection is logged, and the view shows the fixed banner with the button enabled,
  and also the ``No results found'' placeholder under it: the results were emptied at
  submission and line 69 tests only \<open>loading\<close>, not \<open>error\<close>. The spec's failure
  scenario says the placeholder is not shown.
\<close>

theorem failure_shows_placeholder:
  assumes reach: "reach user_event w" and pending: "inflight w \<noteq> []"
    and fail: "axios_post rep = Rejected f"
  shows "\<exists>w'. world_step w (Arrive 0 rep) = Some w' \<and> mounted w' \<and> inflight w' = [] \<and>
              console w' = console w @ [AxiosError f] \<and>
              render (st w') = Inr \<lparr>v_input = query (st w), v_disabled = False, v_label = ''Search'',
                                    v_error = Some fetch_error_msg, v_body = Placeholder\<rparr>"
proof -
  from reach have inv: "ui_inv w" by (rule reach_user_ui_inv)
  with pending obtain x where one: "inflight w = [x]" and m: "mounted w" and l: "loading (st w)"
    by (cases "inflight w") (auto simp: ui_inv_def)
  from state_wf_reach [OF reach] l have e: "results (st w) = JArr []" by (simp add: state_wf_def)
  let ?s' = "(st w)\<lparr>error := Some fetch_error_msg, loading := False\<rparr>"
  let ?w' = "commit [SetError (Some fetch_error_msg), SetLoading False]
               (w\<lparr>inflight := [], console := console w @ [AxiosError f]\<rparr>)"
  have step: "world_step w (Arrive 0 rep) = Some ?w'" using one fail by simp
  have "mounted ?w' \<and> st ?w' = ?s'" using m e by (simp add: commit_mounted commits_empty_results)
  moreover have "render ?s' = Inr \<lparr>v_input = query (st w), v_disabled = False, v_label = ''Search'',
                                    v_error = Some fetch_error_msg, v_body = Placeholder\<rparr>"
    using e by (simp add: render_def render_results_def error_banner_def)
  ultimately show ?thesis using step by simp
qed

theorem failure_shows_placeholder_witness:
  "reach user_event (the (run init_world [Change ''valid'', Submit])) \<and>
   inflight (the (run init_world [Change ''valid'', Submit])) \<noteq> [] \<and>
   axios_post NoReply = Rejected NetworkError \<and>
   (\<exists>w'. world_step (the (run init_world [Change ''valid'', Submit])) (Arrive 0 NoReply) = Some w' \<and>
         mounted w' \<and> inflight w' = [] \<and> console w' = [AxiosError NetworkError] \<and>
         render (st w') = Inr \<lparr>v_input = ''valid'', v_disabled = False, v_label = ''Search'',
                               v_error = Some fetch_error_msg, v_body = Placeholder\<rparr>)"
proof -
  define W where "W = the (run init_world [Change ''valid'', Submit])"
  have e: "run init_world [Change ''valid'', Submit] = Some W"
    by (simp add: W_def run_eval)
  have r: "reach user_event W"
    using run_reach [OF reach_init e] by simp
  have p: "inflight W \<noteq> []" and q: "query (st W) = ''valid''" and c: "console W = []"
    by (simp_all add: W_def run_eval)
  have f: "axios_post NoReply = Rejected NetworkError" by simp
  from failure_shows_placeholder [OF r p f] q c
  have "\<exists>w'. world_step W (Arrive 0 NoReply) = Some w' \<and>
         mounted w' \<and> inflight w' = [] \<and> console w' = [AxiosError NetworkError] \<and>
         render (st w') = Inr \<lparr>v_input = ''valid'', v_disabled = False, v_label = ''Search'',
                               v_error = Some fetch_error_msg, v_body = Placeholder\<rparr>"
    by simp
  with r p f show ?thesis unfolding W_def by blast
qed

text \<open>
  C15. A successful reply whose body is not what the spec calls a success (a body that
  is not JSON, which axios passes on as a string, or a JSON object without
  \<open>contexts\<close>) is not turned into the generic failure the spec prescribes: line 29
  stores \<open>undefined\<close> as the results, the next render throws on
  \<open>results.length\<close>, React unmounts the page, and nothing reaches
  \<open>console.error\<close> (under React 18; React 17 logs the render's exception, C19).
\<close>

theorem malformed_reply_unmounts:
  assumes reach: "reach user_event w" and pending: "inflight w \<noteq> []"
    and ok: "200 \<le> code \<and> code < 300"
    and body: "b = TextBody t \<or> (b = JsonBody (JObj kvs) \<and> ''contexts'' \<notin> fst ` set kvs)"
  shows "spec_reply (Reply code b) = AFail \<and>
         (\<exists>w'. world_step w (Arrive 0 (Reply code b)) = Some w' \<and>
               \<not> mounted w' \<and> results (st w') = JUndef \<and> console w' = console w)"
proof -
  from reach have inv: "ui_inv w" by (rule reach_user_ui_inv)
  with pending obtain x where one: "inflight w = [x]" and m: "mounted w"
    by (cases "inflight w") (auto simp: ui_inv_def)
  obtain d where d: "axios_post (Reply code b) = Fulfilled d" and gp: "get_prop d ''contexts'' = Inr JUndef"
  proof (cases "b = TextBody t")
    case True
    then show ?thesis using ok that by simp
  next
    case False
    with body have b: "b = JsonBody (JObj kvs)" and k: "''contexts'' \<notin> fst ` set kvs" by auto
    from k have "map_of (rev kvs) ''contexts'' = None" by (simp add: map_of_eq_None_iff)
    then show ?thesis using ok that b by simp
  qed
  then have resume: "handleSubmit_resume (axios_post (Reply code b)) = ([SetResults JUndef, SetLoading False], [])"
    by simp
  let ?w' = "commit [SetResults JUndef, SetLoading False] (w\<lparr>inflight := [], console := console w\<rparr>)"
  have step: "world_step w (Arrive 0 (Reply code b)) = Some ?w'"
    by (simp add: one resume del: axios_post.simps handleSubmit_resume.simps)
  have "\<not> commits ((st w)\<lparr>results := JUndef, loading := False\<rparr>)"
    by (simp add: commits_def render_def render_results_def)
  then have "\<not> mounted ?w' \<and> results (st ?w') = JUndef \<and> console ?w' = console w"
    using m by (simp add: commit_mounted)
  moreover have "spec_reply (Reply code b) = AFail"
    using spec_reply_Fulfilled [OF d] gp by (simp add: decode_response_def)
  ultimately show ?thesis using step by blast
qed

theorem malformed_reply_unmounts_witness:
  "reach user_event (the (run init_world [Change ''a'', Submit])) \<and>
   inflight (the (run init_world [Change ''a'', Submit])) \<noteq> [] \<and>
   spec_reply (Reply 200 (TextBody ''<html>Internal error</html>'')) = AFail \<and>
   (\<exists>w'. world_step (the (run init_world [Change ''a'', Submit]))
            (Arrive 0 (Reply 200 (TextBody ''<html>Internal error</html>''))) = Some w' \<and>
         \<not> mounted w' \<and> results (st w') = JUndef \<and>
         console w' = console (the (run init_world [Change ''a'', Submit])))"
proof -
  define W where "W = the (run init_world [Change ''a'', Submit])"
  have e: "run init_world [Change ''a'', Submit] = Some W"
    by (simp add: W_def run_eval)
  have r: "reach user_event W"
    using run_reach [OF reach_init e] by simp
  have p: "inflight W \<noteq> []"
    by (simp add: W_def run_eval)
  have ok: "200 \<le> (200::nat) \<and> (200::nat) < 300" by simp
  have b: "TextBody ''<html>Internal error</html>'' = TextBody ''<html>Internal error</html>'' \<or>
      (TextBody ''<html>Internal error</html>'' = JsonBody (JObj []) \<and> ''contexts'' \<notin> fst ` set ([]::(string \<times> jsval) list))"
    by simp
  show ?thesis using malformed_reply_unmounts [OF r p ok b] r p by (simp add: W_def)
qed

text \<open>The page after typing \<open>pump\<close>, where the two round-trip theorems below are applied.\<close>

lemma pump_page:
  "reach user_event (the (run init_world [Change ''pump'']))"
  "mounted (the (run init_world [Change ''pump'']))"
  "\<not> loading (st (the (run init_world [Change ''pump''])))"
  "\<exists>c \<in> set (query (st (the (run init_world [Change ''pump''])))). \<not> js_ws c"
  "query (st (the (run init_world [Change ''pump'']))) = ''pump''"
proof -
  have e: "run init_world [Change ''pump''] = Some (the (run init_world [Change ''pump'']))"
    by (simp add: run_eval)
  show "reach user_event (the (run init_world [Change ''pump'']))"
    using run_reach [OF reach_init e] by simp
qed (simp_all add: run_eval js_ws_def)

lemma submit_success_run:
  assumes reach: "reach user_event w" and m: "mounted w" and idle: "\<not> loading (st w)"
    and q: "\<exists>c \<in> set (query (st w)). \<not> js_ws c"
    and ok: "axios_post rep = Fulfilled (encode_response xs)"
  shows "\<exists>w'. run w [Submit, Arrive 0 rep] = Some w' \<and>
              mounted w' \<and> inflight w' = [] \<and>
              render (st w') = Inr (arender (query (st w)) (Success xs))"
proof -
  from reach have inv: "ui_inv w" by (rule reach_user_ui_inv)
  with idle have none: "inflight w = []" by (simp add: ui_inv_def)
  obtain us r where aw: "handleSubmit (st w) = Awaiting us r"
    using q handleSubmit_Returned_state by (cases "handleSubmit (st w)") auto
  note h = handleSubmit_Awaiting_state [OF aw]
  let ?s1 = "(st w)\<lparr>results := JArr [], loading := True, error := None\<rparr>"
  let ?w1 = "commit us (w\<lparr>inflight := [r]\<rparr>)"
  have w1: "world_step w Submit = Some ?w1"
    using m idle none aw by (simp add: do_submit_def)
  have m1: "mounted ?w1" and s1: "st ?w1 = ?s1" and i1: "inflight ?w1 = [r]"
    using m h by (simp_all add: commit_mounted commits_empty_results)
  let ?s2 = "?s1\<lparr>results := JArr (map encode_item xs), loading := False\<rparr>"
  have c2: "corr ?s2 (Success xs)" using decode_contexts_encode [of xs] by simp
  have resume: "handleSubmit_resume (axios_post rep)
      = ([SetResults (JArr (map encode_item xs)), SetLoading False], [])"
    using ok by (simp add: encode_response_def)
  let ?w2 = "commit [SetResults (JArr (map encode_item xs)), SetLoading False]
               (?w1\<lparr>inflight := [], console := console ?w1\<rparr>)"
  have w2: "world_step ?w1 (Arrive 0 rep) = Some ?w2"
    using i1 resume by simp
  have "mounted ?w2 \<and> st ?w2 = ?s2"
    using m1 s1 corr_commits [OF c2] by (simp add: commit_mounted)
  moreover have "render ?s2 = Inr (arender (query (st w)) (Success xs))"
    using render_Success [of ?s2 xs] by simp
  ultimately show ?thesis using w1 w2 by auto
qed

text \<open>
  C16. Round trip from the backend to the screen: on a page driven by its user, with no
  request pending and a non-blank query in the field, submitting and receiving a
  successful reply whose body encodes any list of result items renders exactly the
  contract's success view for those items: one card per item, in order, with the
  item's title, snippet and link, the button enabled, no banner.
\<close>

theorem submit_then_success_renders_items:
  assumes reach: "reach user_event w" and m: "mounted w" and idle: "\<not> loading (st w)"
    and q: "\<exists>c \<in> set (query (st w)). \<not> js_ws c" and ok: "200 \<le> code \<and> code < 300"
  shows "\<exists>w'. run w [Submit, Arrive 0 (Reply code (JsonBody (encode_response xs)))] = Some w' \<and>
              mounted w' \<and> inflight w' = [] \<and>
              render (st w') = Inr (arender (query (st w)) (Success xs))"
  using ok by (intro submit_success_run [OF reach m idle q]) simp

theorem submit_then_success_renders_items_witness:
  "reach user_event (the (run init_world [Change ''pump''])) \<and>
   mounted (the (run init_world [Change ''pump''])) \<and>
   \<not> loading (st (the (run init_world [Change ''pump'']))) \<and>
   (\<exists>w'. run (the (run init_world [Change ''pump'']))
            [Submit, Arrive 0 (Reply 200 (JsonBody (encode_response
               [\<lparr>source_title = ''T'', text_snippet = ''S'', source_url = ''U''\<rparr>])))] = Some w' \<and>
         mounted w' \<and> inflight w' = [] \<and>
         render (st w') = Inr (arender ''pump''
           (Success [\<lparr>source_title = ''T'', text_snippet = ''S'', source_url = ''U''\<rparr>])))"
proof -
  note p = pump_page
  have ok: "200 \<le> (200::nat) \<and> (200::nat) < 300" by simp
  show ?thesis
    using submit_then_success_renders_items [OF p(1-4) ok] p by simp
qed

text \<open>
  C21. What the backend receives is what the input field shows: when the user (or a
  script) submits a page whose field holds a non-blank query, exactly one request is
  added to the pending ones, and the JSON text axios sends for it is read by the
  backend as \<open>{q: field, k: 5, mode: "hybrid"}\<close>, with the field untrimmed.
\<close>

theorem submit_sends_field:
  assumes step: "world_step w e = Some w'" and sub: "is_submission e"
    and q: "\<exists>c \<in> set (query (st w)). \<not> js_ws c"
  shows "\<exists>s. inflight w' = inflight w @ [ask_request (query (st w))] \<and>
             json_stringify (req_body (last (inflight w'))) = Some s \<and>
             json_parse s = Some (JObj [(''q'', JStr (query (st w))), (''k'', JNum 5), (''mode'', JStr ''hybrid'')])"
proof -
  have w': "w' = do_submit w" using step sub by (cases e) (auto split: if_splits)
  obtain us r where aw: "handleSubmit (st w) = Awaiting us r"
    using q handleSubmit_Returned_state by (cases "handleSubmit (st w)") auto
  then have r: "r = ask_request (query (st w))" by (simp add: handleSubmit_Awaiting_state)
  have i: "inflight w' = inflight w @ [r]" using w' aw by (simp add: do_submit_def)
  have b: "req_body r \<noteq> JUndef" by (simp add: r ask_request_def)
  have "json_parse (json_ser (req_body r)) = Some (req_body r)"
    using json_parse_json_ser [of "req_body r"] wire_norm_ask_body [of "query (st w)"] by (simp add: r)
  with i b show ?thesis by (simp add: json_stringify_def r ask_request_def)
qed

theorem submit_sends_field_witness:
  "world_step (the (run init_world [Change ''fire extinguisher''])) Submit =
     Some (the (run init_world [Change ''fire extinguisher'', Submit])) \<and>
   (\<exists>s. inflight (the (run init_world [Change ''fire extinguisher'', Submit])) = [ask_request ''fire extinguisher''] \<and>
        json_stringify (req_body (last (inflight (the (run init_world [Change ''fire extinguisher'', Submit]))))) = Some s \<and>
        json_parse s = Some (JObj [(''q'', JStr ''fire extinguisher''), (''k'', JNum 5), (''mode'', JStr ''hybrid'')]))"
proof -
  define W where "W = the (run init_world [Change ''fire extinguisher''])"
  define W' where "W' = the (run init_world [Change ''fire extinguisher'', Submit])"
  have step: "world_step W Submit = Some W'" by (simp add: W_def W'_def run_eval)
  have q: "\<exists>c \<in> set (query (st W)). \<not> js_ws c" and qw: "query (st W) = ''fire extinguisher''"
    and i: "inflight W = []"
    by (simp_all add: W_def run_eval js_ws_def)
  have sub: "is_submission Submit" by simp
  from submit_sends_field [OF step sub q] qw i
  have "\<exists>s. inflight W' = [ask_request ''fire extinguisher''] \<and>
        json_stringify (req_body (last (inflight W'))) = Some s \<and>
        json_parse s = Some (JObj [(''q'', JStr ''fire extinguisher''), (''k'', JNum 5), (''mode'', JStr ''hybrid'')])"
    by (simp only: append.left_neutral)
  with step show ?thesis unfolding W_def W'_def by blast
qed

end
